theory Spec2Isabelle
  imports Main "HOL-Library.Word"
begin

unbundle bit_operations_syntax

section \<open>Data model\<close>

text \<open>
  The class \<open>MTProtoState\<close> of the MTProto session core. A \<open>Buffer\<close> is a list of
  bytes, a \<open>BigInteger\<close> of the big-integer library is an unbounded \<open>int\<close>, and the
  JavaScript numbers \<open>_sequence\<close> and \<open>timeOffset\<close> hold integers (exact in a double
  below \<open>2 ^ 53\<close>), so they are \<open>int\<close> as well.
\<close>

type_synonym byte = "8 word"
type_synonym bytes = "byte list"

text \<open>
  Modelled from the spec: the class \<open>AuthKey\<close> is not part of the sources read here.
  The spec gives it raw key bytes (\<open>getKey()\<close>, absent until negotiated) and a derived
  8-byte key identifier (\<open>keyId\<close>, absent until negotiated).
\<close>

record AuthKey =
  getKey :: "bytes option"
  keyId :: "64 word option"

text \<open>
  The fields of \<open>MTProtoState\<close> set by the constructor (lines 43-53). The field \<open>id\<close> is
  \<open>id'\<close> here and \<open>_sequence\<close>, \<open>_lastMsgId\<close> lose the leading underscore. \<open>msgIds\<close> holds
  the decimal strings of the remote message IDs; a decimal string determines its
  integer and conversely, so the list holds the integers. The logger \<open>_log\<close> only prints.
\<close>

record MTProtoState =
  authKey :: "AuthKey option"
  timeOffset :: int
  salt :: int
  sequence :: int
  id' :: int
  lastMsgId :: int
  msgIds :: "int list"
  securityChecks :: bool


text \<open>
  What the methods raise: \<open>Error("Auth key unset")\<close>, \<open>Error("Unset params")\<close>,
  \<open>InvalidBufferError\<close>, and \<open>SecurityError\<close> with the messages "Server replied
  with an invalid auth key", "Unset AuthKey", "Received msg_key doesn't match with
  expected one" and "Duplicate msgIds". \<open>ReadPastEnd\<close> is a read of the reader beyond
  the end of its buffer, \<open>RangeError\<close> is \<open>writeInt32LE\<close> of a value outside 32 bits, and
  \<open>DecodeError\<close> is any failure of the object decoder.
\<close>

datatype error =
    AuthKeyUnset
  | UnsetParams
  | InvalidBufferError
  | InvalidAuthKey
  | UnsetAuthKey
  | MsgKeyMismatch
  | DuplicateMsgIds
  | ReadPastEnd
  | RangeError
  | DecodeError

text \<open>\<open>TLMessage\<close> of \<open>tl/core\<close>, as line 215 builds it.\<close>

record 'obj TLMessage =
  msgId :: int
  seqNo :: int
  obj :: 'obj

text \<open>
  The collaborators the class calls and does not define. They are parameters of the
  model, and every theorem holds for each choice of them:
  \<^item> \<open>sha256\<close>, the digest of \<open>Helpers\<close>;
  \<open>encryptIge key iv\<close> and \<open>decryptIge key iv\<close>, the cipher of \<open>crypto/IGE\<close>;
  \<^item> \<open>tgReadObject\<close>, the object decoder of the reader, applied to the bytes not yet
    read (\<open>None\<close> when it throws);
  \<^item> \<open>gzipIfSmaller\<close> of \<open>GZIPPacked\<close> and \<open>invokeAfterMsg msgId data\<close>, the bytes of
    \<open>Api.InvokeAfterMsg\<close> around \<open>data\<close>.
\<close>

record 'obj Externals =
  sha256 :: "bytes \<Rightarrow> bytes"
  encryptIge :: "bytes \<Rightarrow> bytes \<Rightarrow> bytes \<Rightarrow> bytes"
  decryptIge :: "bytes \<Rightarrow> bytes \<Rightarrow> bytes \<Rightarrow> bytes"
  tgReadObject :: "bytes \<Rightarrow> 'obj option"
  gzipIfSmaller :: "bool \<Rightarrow> bytes \<Rightarrow> bytes"
  invokeAfterMsg :: "int \<Rightarrow> bytes \<Rightarrow> bytes"

section \<open>Buffers and integers\<close>

text \<open>
  \<open>Buffer.slice(start, stop)\<close> of the buffer library: both indices are cut to the
  length of the buffer, so a slice beyond the end is shorter, never an error.
  \<open>b.slice(24)\<close> is \<open>drop 24 b\<close>.
\<close>

definition slice :: "'a list \<Rightarrow> nat \<Rightarrow> nat \<Rightarrow> 'a list" where
  "slice b start stop = take (stop - start) (drop start b)"

text \<open>
  Modelled from the spec: \<open>toSignedLittleBuffer\<close> of \<open>Helpers\<close> is not part of the sources
  read here. The spec has it write a big integer as \<open>number\<close> bytes, signed and
  little-endian: byte \<open>i\<close> holds bits \<open>8 * i\<close> to \<open>8 * i + 7\<close> of the two's complement value.
\<close>

fun toSignedLittleBuffer :: "int \<Rightarrow> nat \<Rightarrow> bytes" where
  "toSignedLittleBuffer big 0 = []"
| "toSignedLittleBuffer big (Suc number) =
     word_of_int big # toSignedLittleBuffer (big div 256) number"

text \<open>The unsigned little-endian value of a buffer.\<close>

fun le_uint :: "bytes \<Rightarrow> int" where
  "le_uint [] = 0"
| "le_uint (b # bs) = uint b + 256 * le_uint bs"

text \<open>
  Modelled from the spec: \<open>readBigIntFromBuffer(buffer, little = true, isSigned)\<close> and
  \<open>readBufferFromBigInt(big, number)\<close> of \<open>Helpers\<close> are not part of the sources read here.
  The first reads a little-endian integer, in two's complement when \<open>isSigned\<close>; the second
  writes the 8-byte key identifier little-endian and unsigned.
\<close>

definition readBigIntFromBuffer :: "bytes \<Rightarrow> bool \<Rightarrow> int" where
  "readBigIntFromBuffer buffer isSigned =
     (let bigIntVar = le_uint buffer
      in if isSigned \<and> 2 ^ (8 * length buffer - 1) \<le> bigIntVar
         then bigIntVar - 2 ^ (8 * length buffer)
         else bigIntVar)"

definition readBufferFromBigInt :: "64 word \<Rightarrow> nat \<Rightarrow> bytes" where
  "readBufferFromBigInt big number = toSignedLittleBuffer (uint big) number"

text \<open>
  \<open>Buffer.writeInt32LE\<close> of the buffer library throws a \<open>RangeError\<close> outside the signed
  32-bit range.
\<close>

definition writeInt32LE :: "int \<Rightarrow> error + bytes" where
  "writeInt32LE v =
     (if - (2 ^ 31) \<le> v \<and> v < 2 ^ 31 then Inr (toSignedLittleBuffer v 4) else Inl RangeError)"

text \<open>
  Modelled from the spec: \<open>helpers.mod\<close> and \<open>helpers.generateRandomBytes\<close> are not part of
  the sources read here. The spec's \<open>mod\<close> is the non-negative remainder. The random
  bytes are read off a tape \<open>rnd\<close>, an input of the model: \<open>generateRandomBytes rnd n\<close> is
  its first \<open>n\<close> bytes.
\<close>

definition helpers_mod :: "int \<Rightarrow> int \<Rightarrow> int" where
  "helpers_mod n m = n mod m"

definition generateRandomBytes :: "(nat \<Rightarrow> byte) \<Rightarrow> nat \<Rightarrow> bytes" where
  "generateRandomBytes rnd n = map rnd [0..<n]"

text \<open>
  Modelled from the spec: \<open>BinaryReader\<close> of \<open>extensions\<close> is not part of the sources read
  here. The model passes the bytes not yet read: \<open>readLong\<close> takes 8 bytes and \<open>readInt\<close>
  takes 4, both little-endian and signed, and return the value with the bytes that
  remain; with fewer bytes left the read throws.
\<close>

definition readLong :: "bytes \<Rightarrow> error + (int \<times> bytes)" where
  "readLong r =
     (if length r < 8 then Inl ReadPastEnd
      else Inr (readBigIntFromBuffer (take 8 r) True, drop 8 r))"

definition readInt :: "bytes \<Rightarrow> error + (int \<times> bytes)" where
  "readInt r =
     (if length r < 4 then Inl ReadPastEnd
      else Inr (readBigIntFromBuffer (take 4 r) True, drop 4 r))"

text \<open>\<open>BinaryWriter\<close> (extensions/BinaryWriter.js): its method \<open>write\<close>, here
  \<open>writeBuffer\<close>, appends to the stream.\<close>

record BinaryWriter =
  stream :: bytes

definition writeBuffer :: "BinaryWriter \<Rightarrow> bytes \<Rightarrow> BinaryWriter" where
  "writeBuffer w buffer = w\<lparr>stream := stream w @ buffer\<rparr>"

definition getValue :: "BinaryWriter \<Rightarrow> bytes" where
  "getValue w = stream w"

section \<open>Construction and reset\<close>

text \<open>
  \<open>reset\<close> (lines 57-63); \<open>rid\<close> is the random long that \<open>generateRandomLong(true)\<close> draws.
\<close>

definition reset :: "MTProtoState \<Rightarrow> int \<Rightarrow> MTProtoState" where
  "reset s rid = s\<lparr>id' := rid, sequence := 0, lastMsgId := 0, msgIds := []\<rparr>"

text \<open>The constructor (lines 43-53), which ends with \<open>reset\<close>.\<close>

definition newState :: "AuthKey option \<Rightarrow> bool \<Rightarrow> int \<Rightarrow> MTProtoState" where
  "newState ak checks rid =
     reset \<lparr>authKey = ak, timeOffset = 0, salt = 0, sequence = 0, id' = 0,
            lastMsgId = 0, msgIds = [], securityChecks = checks\<rparr> rid"

section \<open>Key derivation\<close>

text \<open>
  \<open>_calcKey\<close> (lines 79-96). The raw key is \<open>authKey'\<close>, the name \<open>authKey\<close> being the
  field. The two digests are awaited together; their order does not matter to a
  function.
\<close>

definition calcKey :: "'obj Externals \<Rightarrow> bytes \<Rightarrow> bytes \<Rightarrow> bool \<Rightarrow> bytes \<times> bytes" where
  "calcKey ext authKey' msgKey client =
     (let x = (if client then 0 else 8);
          sha256a = sha256 ext (msgKey @ slice authKey' x (x + 36));
          sha256b = sha256 ext (slice authKey' (x + 40) (x + 76) @ msgKey);
          key = slice sha256a 0 8 @ slice sha256b 8 24 @ slice sha256a 24 32;
          iv = slice sha256b 0 8 @ slice sha256a 8 24 @ slice sha256b 24 32
      in (key, iv))"

text \<open>
  The key deriver in the words of the spec, section 4.1, where \<open>a[i:j]\<close> is the bytes of
  \<open>a\<close> at the indices \<open>i\<close> up to \<open>j - 1\<close>.
\<close>

definition bytes_at :: "bytes \<Rightarrow> nat \<Rightarrow> nat \<Rightarrow> bytes" where
  "bytes_at a i j = map (\<lambda>k. a ! k) [i..<j]"

definition spec_calcKey :: "(bytes \<Rightarrow> bytes) \<Rightarrow> bytes \<Rightarrow> bytes \<Rightarrow> bool \<Rightarrow> bytes \<times> bytes" where
  "spec_calcKey SHA256 masterKey messageKey flag =
     (let x = (if flag then 0 else 8);
          sha256a = SHA256 (messageKey @ bytes_at masterKey x (x + 36));
          sha256b = SHA256 (bytes_at masterKey (x + 40) (x + 76) @ messageKey)
      in (bytes_at sha256a 0 8 @ bytes_at sha256b 8 24 @ bytes_at sha256a 24 32,
          bytes_at sha256b 0 8 @ bytes_at sha256a 8 24 @ bytes_at sha256b 24 32))"

section \<open>Message identifiers\<close>

text \<open>
  Lines 223-224 of \<open>_getNewMsgId\<close> compute in double precision, from the clock reading
  \<open>new Date().getTime()\<close> (milliseconds) and \<open>timeOffset\<close>, the two integers
  \<open>Math.floor(now)\<close> and \<open>nanoseconds\<close>. Rounding of doubles is outside the model: that
  computation is the parameter \<open>clock\<close>, which maps the reading and the offset to the
  two integers, and every theorem holds for each such function. \<open>exactClock\<close> is the
  computation without rounding.
\<close>

type_synonym Clock = "int \<Rightarrow> int \<Rightarrow> int \<times> int"

definition exactClock :: Clock where
  "exactClock ms offset = (ms div 1000 + offset, (ms mod 1000) * 1000000)"

text \<open>
  \<open>_getNewMsgId\<close> (lines 222-233); \<open>ms\<close> is the clock reading. Returns the identifier and
  the state after the call.
\<close>

definition getNewMsgId :: "Clock \<Rightarrow> MTProtoState \<Rightarrow> int \<Rightarrow> int \<times> MTProtoState" where
  "getNewMsgId clock s ms =
     (let (now_floor, nanoseconds) = clock ms (timeOffset s);
          candidate = push_bit 32 now_floor OR push_bit 2 nanoseconds;
          newMsgId = (if lastMsgId s \<ge> candidate then lastMsgId s + 4 else candidate)
      in (newMsgId, s\<lparr>lastMsgId := newMsgId\<rparr>))"

text \<open>Successive calls of \<open>_getNewMsgId\<close> on one state, one per clock reading.\<close>

fun getNewMsgIds :: "Clock \<Rightarrow> MTProtoState \<Rightarrow> int list \<Rightarrow> int list \<times> MTProtoState" where
  "getNewMsgIds clock s [] = ([], s)"
| "getNewMsgIds clock s (ms # mss) =
     (let (m, s') = getNewMsgId clock s ms;
          (ids, s'') = getNewMsgIds clock s' mss
      in (m # ids, s''))"

text \<open>
  \<open>updateTimeOffset\<close> (lines 239-250). The clock is read twice: \<open>ms1\<close> inside
  \<open>_getNewMsgId\<close>, \<open>ms2\<close> on line 242, where \<open>Math.floor(ms2 / 1000)\<close> is \<open>ms2 div 1000\<close>.
  \<open>shiftRight\<close> of a big integer is \<open>drop_bit\<close>. Returns the offset and the state after
  the call.
\<close>

definition updateTimeOffset ::
  "Clock \<Rightarrow> MTProtoState \<Rightarrow> int \<Rightarrow> int \<Rightarrow> int \<Rightarrow> int \<times> MTProtoState" where
  "updateTimeOffset clock s ms1 ms2 correctMsgId =
     (let (bad, s1) = getNewMsgId clock s ms1;
          old = timeOffset s1;
          now = ms2 div 1000;
          correct = drop_bit 32 correctMsgId;
          s2 = s1\<lparr>timeOffset := correct - now\<rparr>;
          s3 = (if timeOffset s2 \<noteq> old then s2\<lparr>lastMsgId := 0\<rparr> else s2)
      in (timeOffset s3, s3))"

section \<open>Sequence numbers\<close>

text \<open>
  \<open>_getSeqNo\<close> (lines 257-266): returns the sequence number and the state after
  the call.
\<close>

definition getSeqNo :: "MTProtoState \<Rightarrow> bool \<Rightarrow> int \<times> MTProtoState" where
  "getSeqNo s contentRelated =
     (if contentRelated
      then (let result = sequence s * 2 + 1
            in (result, s\<lparr>sequence := sequence s + 1\<rparr>))
      else (sequence s * 2, s))"

text \<open>Successive calls of \<open>_getSeqNo\<close> on one state, one per flag, in order.\<close>

fun getSeqNos :: "MTProtoState \<Rightarrow> bool list \<Rightarrow> int list \<times> MTProtoState" where
  "getSeqNos s [] = ([], s)"
| "getSeqNos s (c # cs) =
     (let (n, s') = getSeqNo s c;
          (ns, s'') = getSeqNos s' cs
      in (n # ns, s''))"

section \<open>Framing, encryption and decryption\<close>

text \<open>
  \<open>writeDataAsMessage\<close> (lines 105-130): the identifier and the sequence number are
  drawn first, so the state has moved on even when a later step throws. Returns the
  identifier with the writer after the two writes, and the state after the call.
\<close>

definition writeDataAsMessage ::
  "'obj Externals \<Rightarrow> Clock \<Rightarrow> MTProtoState \<Rightarrow> int \<Rightarrow> BinaryWriter \<Rightarrow> bytes \<Rightarrow> bool \<Rightarrow>
   int option \<Rightarrow> (error + (int \<times> BinaryWriter)) \<times> MTProtoState" where
  "writeDataAsMessage ext clock s ms buffer data contentRelated afterId =
     (let (newId, s1) = getNewMsgId clock s ms;
          (seqNo', s2) = getSeqNo s1 contentRelated;
          body = (case afterId of
                    None \<Rightarrow> gzipIfSmaller ext contentRelated data
                  | Some a \<Rightarrow> gzipIfSmaller ext contentRelated (invokeAfterMsg ext a data))
      in case writeInt32LE seqNo' of
           Inl e \<Rightarrow> (Inl e, s2)
         | Inr sb \<Rightarrow>
             (case writeInt32LE (int (length body)) of
                Inl e \<Rightarrow> (Inl e, s2)
              | Inr b \<Rightarrow>
                  (let m = toSignedLittleBuffer newId 8;
                       buffer1 = writeBuffer buffer (m @ sb @ b);
                       buffer2 = writeBuffer buffer1 body
                   in (Inr (newId, buffer2), s2))))"

text \<open>
  \<open>encryptMessageData\<close> (lines 136-164). \<open>waitForKey\<close> only suspends the caller. A
  \<open>BigInteger\<close> and a \<open>Buffer\<close> are objects, so \<open>!this.salt\<close>, \<open>!this.id\<close> and \<open>!authKey\<close> on
  line 145 are false and the test comes down to the key identifier. No field of the
  state is assigned, so the method returns its result only.
\<close>

definition encryptMessageData ::
  "'obj Externals \<Rightarrow> (nat \<Rightarrow> byte) \<Rightarrow> MTProtoState \<Rightarrow> bytes \<Rightarrow> error + bytes" where
  "encryptMessageData ext rnd s data =
     (case authKey s of
        None \<Rightarrow> Inl AuthKeyUnset
      | Some ak \<Rightarrow>
          (case getKey ak of
             None \<Rightarrow> Inl AuthKeyUnset
           | Some authKey' \<Rightarrow>
               (case keyId ak of
                  None \<Rightarrow> Inl UnsetParams
                | Some kid \<Rightarrow>
                    (let s8 = toSignedLittleBuffer (salt s) 8;
                         i8 = toSignedLittleBuffer (id' s) 8;
                         data' = (s8 @ i8) @ data;
                         padding = generateRandomBytes rnd
                           (nat (helpers_mod (- (int (length data') + 12)) 16 + 12));
                         msgKeyLarge = sha256 ext (slice authKey' 88 (88 + 32) @ data' @ padding);
                         msgKey = slice msgKeyLarge 8 24;
                         (key, iv) = calcKey ext authKey' msgKey True;
                         keyId' = readBufferFromBigInt kid 8
                     in Inr (keyId' @ msgKey @ encryptIge ext key iv (data' @ padding))))))"

text \<open>
  The frame of the other direction, the one \<open>decryptMessageData\<close> is written for
  ("for incoming server messages", line 166). It is the construction of
  \<open>encryptMessageData\<close> with \<open>x = 8\<close> in the formula quoted on lines 152-153,
  \<open>SHA256(substr(auth_key, 88+x, 32) + pt + padding)\<close>, and with \<open>client = false\<close> in
  \<open>_calcKey\<close>. It is no method of the class; it states what a server sends.
\<close>

definition serverEncryptMessageData ::
  "'obj Externals \<Rightarrow> (nat \<Rightarrow> byte) \<Rightarrow> MTProtoState \<Rightarrow> bytes \<Rightarrow> error + bytes" where
  "serverEncryptMessageData ext rnd s data =
     (case authKey s of
        None \<Rightarrow> Inl AuthKeyUnset
      | Some ak \<Rightarrow>
          (case getKey ak of
             None \<Rightarrow> Inl AuthKeyUnset
           | Some authKey' \<Rightarrow>
               (case keyId ak of
                  None \<Rightarrow> Inl UnsetParams
                | Some kid \<Rightarrow>
                    (let s8 = toSignedLittleBuffer (salt s) 8;
                         i8 = toSignedLittleBuffer (id' s) 8;
                         data' = (s8 @ i8) @ data;
                         padding = generateRandomBytes rnd
                           (nat (helpers_mod (- (int (length data') + 12)) 16 + 12));
                         msgKeyLarge = sha256 ext (slice authKey' 96 (96 + 32) @ data' @ padding);
                         msgKey = slice msgKeyLarge 8 24;
                         (key, iv) = calcKey ext authKey' msgKey False;
                         keyId' = readBufferFromBigInt kid 8
                     in Inr (keyId' @ msgKey @ encryptIge ext key iv (data' @ padding))))))"

text \<open>
  Lines 201-208 of \<open>decryptMessageData\<close>, the replay window: the duplicate test, the
  eviction of the oldest entry and the recording of the new one.
\<close>

definition checkAndRecord :: "MTProtoState \<Rightarrow> int \<Rightarrow> error + MTProtoState" where
  "checkAndRecord s remoteMsgId =
     (if remoteMsgId \<in> set (msgIds s) \<and> securityChecks s then Inl DuplicateMsgIds
      else Inr (s\<lparr>msgIds :=
                  (if length (msgIds s) > 500 then tl (msgIds s) else msgIds s) @ [remoteMsgId]\<rparr>))"

text \<open>Recording a list of remote identifiers in order, stopping at the first error.\<close>

fun checkAndRecordAll :: "MTProtoState \<Rightarrow> int list \<Rightarrow> error + MTProtoState" where
  "checkAndRecordAll s [] = Inr s"
| "checkAndRecordAll s (r # rs) =
     (case checkAndRecord s r of Inl e \<Rightarrow> Inl e | Inr s' \<Rightarrow> checkAndRecordAll s' rs)"

text \<open>
  Lines 194-215 of \<open>decryptMessageData\<close>: the reads of the decrypted body. The salt is
  dropped, the comparison of the session identifier has an empty body (line 197), and
  the remote identifier is recorded before the sequence number, the length and the
  object are read, so a failure of those reads leaves it recorded.
\<close>

definition readMessage ::
  "'obj Externals \<Rightarrow> MTProtoState \<Rightarrow> bytes \<Rightarrow> (error + 'obj TLMessage) \<times> MTProtoState" where
  "readMessage ext s body =
     (case readLong body of
        Inl e \<Rightarrow> (Inl e, s)
      | Inr (removeSalt, r1) \<Rightarrow>
     (case readLong r1 of
        Inl e \<Rightarrow> (Inl e, s)
      | Inr (serverId, r2) \<Rightarrow>
     (case readLong r2 of
        Inl e \<Rightarrow> (Inl e, s)
      | Inr (remoteMsgId, r3) \<Rightarrow>
     (case checkAndRecord s remoteMsgId of
        Inl e \<Rightarrow> (Inl e, s)
      | Inr s' \<Rightarrow>
     (case readInt r3 of
        Inl e \<Rightarrow> (Inl e, s')
      | Inr (remoteSequence, r4) \<Rightarrow>
     (case readInt r4 of
        Inl e \<Rightarrow> (Inl e, s')
      | Inr (msgLen, r5) \<Rightarrow>
     (case tgReadObject ext r5 of
        None \<Rightarrow> (Inl DecodeError, s')
      | Some ob \<Rightarrow>
          (Inr \<lparr>msgId = remoteMsgId, seqNo = remoteSequence, obj = ob\<rparr>, s'))))))))"

text \<open>
  Lines 170-193 of \<open>decryptMessageData\<close>: the checks on the key and the buffer, the
  decryption and the comparison of the message key. These lines read the field
  \<open>authKey\<close> and no other field of the state, so the model passes them that field only.
  The result is the decrypted body.
\<close>

definition decryptBody :: "'obj Externals \<Rightarrow> AuthKey option \<Rightarrow> bytes \<Rightarrow> error + bytes" where
  "decryptBody ext authKeyField body =
     (case authKeyField of
        None \<Rightarrow> Inl AuthKeyUnset
      | Some ak \<Rightarrow>
          if length body < 8 then Inl InvalidBufferError
          else
            (case keyId ak of
               None \<Rightarrow> Inl InvalidAuthKey
             | Some kid \<Rightarrow>
                 if readBigIntFromBuffer (slice body 0 8) False \<noteq> uint kid
                 then Inl InvalidAuthKey
                 else
                   (case getKey ak of
                      None \<Rightarrow> Inl UnsetAuthKey
                    | Some authKey' \<Rightarrow>
                        (let msgKey = slice body 8 24;
                             (key, iv) = calcKey ext authKey' msgKey False;
                             body' = decryptIge ext key iv (drop 24 body);
                             ourKey = sha256 ext (slice authKey' 96 (96 + 32) @ body')
                         in if msgKey \<noteq> slice ourKey 8 24 then Inl MsgKeyMismatch
                            else Inr body'))))"

text \<open>
  \<open>decryptMessageData\<close> (lines 169-216): lines 170-193, then the reads of lines
  194-215. Returns the message or the error, and the state after the call.
\<close>

definition decryptMessageData ::
  "'obj Externals \<Rightarrow> MTProtoState \<Rightarrow> bytes \<Rightarrow> (error + 'obj TLMessage) \<times> MTProtoState" where
  "decryptMessageData ext s body =
     (case decryptBody ext (authKey s) body of
        Inl e \<Rightarrow> (Inl e, s)
      | Inr body' \<Rightarrow> readMessage ext s body')"

section \<open>Reachable states\<close>

text \<open>
  The states a connection can be in: built by the constructor and changed by the
  methods of the class, and by the sender assigning a new salt. \<open>updateMessageId\<close>
  (lines 69-71) changes the state as \<open>_getNewMsgId\<close> does, and \<open>encryptMessageData\<close> and
  \<open>_calcKey\<close> do not change it.
\<close>

inductive reachable :: "'obj Externals \<Rightarrow> Clock \<Rightarrow> MTProtoState \<Rightarrow> bool"
  for ext :: "'obj Externals" and clock :: Clock where
  r_new: "reachable ext clock (newState ak checks rid)"
| r_reset: "reachable ext clock s \<Longrightarrow> reachable ext clock (reset s rid)"
| r_salt: "reachable ext clock s \<Longrightarrow> reachable ext clock (s\<lparr>salt := v\<rparr>)"
| r_getNewMsgId: "reachable ext clock s \<Longrightarrow> reachable ext clock (snd (getNewMsgId clock s ms))"
| r_getSeqNo: "reachable ext clock s \<Longrightarrow> reachable ext clock (snd (getSeqNo s c))"
| r_updateTimeOffset:
    "reachable ext clock s \<Longrightarrow> reachable ext clock (snd (updateTimeOffset clock s ms1 ms2 good))"
| r_writeDataAsMessage:
    "reachable ext clock s \<Longrightarrow>
     reachable ext clock (snd (writeDataAsMessage ext clock s ms buffer data c afterId))"
| r_decryptMessageData:
    "reachable ext clock s \<Longrightarrow> reachable ext clock (snd (decryptMessageData ext s body))"

text \<open>
  What holds of every reachable state: the last identifier is a non-negative multiple
  of 4, and the replay window holds at most 501 entries.
\<close>

definition state_inv :: "MTProtoState \<Rightarrow> bool" where
  "state_inv s = (0 \<le> lastMsgId s \<and> 4 dvd lastMsgId s \<and> length (msgIds s) \<le> 501)"

section \<open>Fixtures for the examples\<close>

text \<open>
  Stand-ins for the collaborators, small enough to evaluate, used only where an example
  needs concrete values: a checksum in place of the digest, a byte-wise shift by the
  checksum of key and initialisation vector in place of the cipher, and a decoder for
  objects of four bytes, which reads the four bytes and leaves what follows them.
\<close>

definition demoChecksum :: "bytes \<Rightarrow> byte" where
  "demoChecksum b = foldl (\<lambda>acc x. 5 * acc + (x XOR drop_bit 3 acc) + 1) 7 b"

definition demoSha256 :: "bytes \<Rightarrow> bytes" where
  "demoSha256 b = map (\<lambda>i. demoChecksum b + of_nat i) [0..<32]"

definition demoShift :: "bytes \<Rightarrow> bytes \<Rightarrow> byte" where
  "demoShift key iv = demoChecksum (key @ iv)"

definition demoExt :: "bytes Externals" where
  "demoExt =
     \<lparr>sha256 = demoSha256,
      encryptIge = (\<lambda>key iv b. map (\<lambda>x. x + demoShift key iv) b),
      decryptIge = (\<lambda>key iv b. map (\<lambda>x. x - demoShift key iv) b),
      tgReadObject = (\<lambda>r. if length r < 4 then None else Some (take 4 r)),
      gzipIfSmaller = (\<lambda>c b. b),
      invokeAfterMsg = (\<lambda>a b. toSignedLittleBuffer a 8 @ b)\<rparr>"

definition demoKey :: bytes where
  "demoKey = map of_nat [0..<256]"

definition demoAuthKey :: AuthKey where
  "demoAuthKey = \<lparr>getKey = Some demoKey, keyId = Some 0x0102030405060708\<rparr>"

definition demoRnd :: "nat \<Rightarrow> byte" where
  "demoRnd i = of_nat i"

text \<open>
  A framed message as \<open>writeDataAsMessage\<close> writes it: identifier 7301444403692000000,
  sequence number 1, length 4 and a body of four bytes.
\<close>

definition demoFrame :: bytes where
  "demoFrame = [0, 83, 83, 29, 0, 241, 83, 101, 1, 0, 0, 0, 4, 0, 0, 0, 10, 20, 30, 40]"

definition demoState :: MTProtoState where
  "demoState = newState (Some demoAuthKey) True 99"

text \<open>
  The values that occur when \<open>demoFrame\<close> is encrypted in \<open>demoState\<close>: the plaintext with
  salt 0, session identifier 99 and the 12 bytes of padding; the message key and the
  frame of \<open>encryptMessageData\<close>; what the keys of the other direction make of that
  frame's cipher text; and the message key and the frame of the server direction.
\<close>

definition demoPlain :: bytes where
  "demoPlain =
     [0, 0, 0, 0, 0, 0, 0, 0, 99, 0, 0, 0, 0, 0, 0, 0,
      0, 83, 83, 29, 0, 241, 83, 101, 1, 0, 0, 0, 4, 0, 0, 0, 10, 20, 30, 40,
      0, 1, 2, 3, 4, 5, 6, 7, 8, 9, 10, 11]"

definition demoMsgKey :: bytes where
  "demoMsgKey =
     [121, 122, 123, 124, 125, 126, 127, 128, 129, 130, 131, 132, 133, 134, 135, 136]"

definition demoCipherText :: bytes where
  "demoCipherText =
     [140, 140, 140, 140, 140, 140, 140, 140, 239, 140, 140, 140, 140, 140, 140, 140,
      140, 223, 223, 169, 140, 125, 223, 241, 141, 140, 140, 140, 144, 140, 140, 140,
      150, 160, 170, 180, 140, 141, 142, 143, 144, 145, 146, 147, 148, 149, 150, 151]"

definition demoCipher :: bytes where
  "demoCipher = [8, 7, 6, 5, 4, 3, 2, 1] @ demoMsgKey @ demoCipherText"

definition demoGarbled :: bytes where
  "demoGarbled =
     [1, 1, 1, 1, 1, 1, 1, 1, 100, 1, 1, 1, 1, 1, 1, 1,
      1, 84, 84, 30, 1, 242, 84, 102, 2, 1, 1, 1, 5, 1, 1, 1, 11, 21, 31, 41,
      1, 2, 3, 4, 5, 6, 7, 8, 9, 10, 11, 12]"

definition demoServerMsgKey :: bytes where
  "demoServerMsgKey =
     [103, 104, 105, 106, 107, 108, 109, 110, 111, 112, 113, 114, 115, 116, 117, 118]"

definition demoServerCipherText :: bytes where
  "demoServerCipherText =
     [165, 165, 165, 165, 165, 165, 165, 165, 8, 165, 165, 165, 165, 165, 165, 165,
      165, 248, 248, 194, 165, 150, 248, 10, 166, 165, 165, 165, 169, 165, 165, 165,
      175, 185, 195, 205, 165, 166, 167, 168, 169, 170, 171, 172, 173, 174, 175, 176]"

definition demoServerCipher :: bytes where
  "demoServerCipher = [8, 7, 6, 5, 4, 3, 2, 1] @ demoServerMsgKey @ demoServerCipherText"

section \<open>Theorems\<close>

subsection \<open>Sequence numbers\<close>

lemma getSeqNo_content:
  "getSeqNo s True = (sequence s * 2 + 1, s\<lparr>sequence := sequence s + 1\<rparr>)"
  by (simp add: getSeqNo_def)

lemma getSeqNo_non_content: "getSeqNo s False = (sequence s * 2, s)"
  by (simp add: getSeqNo_def)

text \<open>
  C1, as stated, fails: from a counter of 0 the flags content, content, non-content,
  content do not give 1, 3, 4, 7. The fourth call finds the counter at 2 and returns 5.
\<close>

theorem getSeqNos_not_1_3_4_7:
  "fst (getSeqNos \<lparr>authKey = None, timeOffset = 0, salt = 0, sequence = 0, id' = 7,
                   lastMsgId = 0, msgIds = [], securityChecks = True\<rparr>
         [True, True, False, True]) = [1, 3, 4, 5] \<and>
   fst (getSeqNos \<lparr>authKey = None, timeOffset = 0, salt = 0, sequence = 0, id' = 7,
                   lastMsgId = 0, msgIds = [], securityChecks = True\<rparr>
         [True, True, False, True]) \<noteq> [1, 3, 4, 7]"
  by (simp add: getSeqNo_def)

text \<open>
  C1, amended: from a counter of 0 the four calls with flags content, content,
  non-content, content return 1, 3, 4, 5 and leave the counter at 3; a content-related
  call returns \<open>sequence * 2 + 1\<close> and adds 1 to the counter, a non-content call returns
  \<open>sequence * 2\<close> and leaves the state as it was.
\<close>

theorem getSeqNos_1_3_4_5:
  "getSeqNo s True = (sequence s * 2 + 1, s\<lparr>sequence := sequence s + 1\<rparr>) \<and>
   getSeqNo s False = (sequence s * 2, s) \<and>
   (sequence s = 0 \<longrightarrow>
      getSeqNos s [True, True, False, True] = ([1, 3, 4, 5], s\<lparr>sequence := 3\<rparr>))"
  by (simp add: getSeqNo_def)

theorem getSeqNos_1_3_4_5_witness:
  "getSeqNos \<lparr>authKey = None, timeOffset = 0, salt = 0, sequence = 0, id' = 7,
              lastMsgId = 0, msgIds = [], securityChecks = True\<rparr> [True, True, False, True]
   = ([1, 3, 4, 5],
      \<lparr>authKey = None, timeOffset = 0, salt = 0, sequence = 3, id' = 7,
       lastMsgId = 0, msgIds = [], securityChecks = True\<rparr>)"
proof -
  define s0 :: MTProtoState where
    "s0 = \<lparr>authKey = None, timeOffset = 0, salt = 0, sequence = 0, id' = 7,
           lastMsgId = 0, msgIds = [], securityChecks = True\<rparr>"
  have "sequence s0 = 0" by (simp add: s0_def)
  with getSeqNos_1_3_4_5 [of s0]
  have "getSeqNos s0 [True, True, False, True] = ([1, 3, 4, 5], s0\<lparr>sequence := 3\<rparr>)"
    by blast
  then show ?thesis by (simp add: s0_def)
qed

subsection \<open>Message identifiers\<close>

lemma candidate_dvd4: "4 dvd (push_bit 32 a OR push_bit 2 b :: int)"
proof -
  have "take_bit 2 (push_bit 32 a OR push_bit 2 b :: int) = 0"
    by (simp add: take_bit_push_bit)
  then have "2 ^ 2 dvd (push_bit 32 a OR push_bit 2 b :: int)"
    by (simp only: take_bit_eq_0_iff)
  then show ?thesis by simp
qed

lemma getNewMsgId_fst:
  "fst (getNewMsgId clock s ms) =
     (let candidate = push_bit 32 (fst (clock ms (timeOffset s)))
                      OR push_bit 2 (snd (clock ms (timeOffset s)))
      in if candidate \<le> lastMsgId s then lastMsgId s + 4 else candidate)"
  by (simp add: getNewMsgId_def Let_def split: prod.splits)

lemma getNewMsgId_snd:
  "snd (getNewMsgId clock s ms) = s\<lparr>lastMsgId := fst (getNewMsgId clock s ms)\<rparr>"
  by (simp add: getNewMsgId_def Let_def split: prod.splits)

lemma getNewMsgId_gt: "lastMsgId s < fst (getNewMsgId clock s ms)"
  by (simp add: getNewMsgId_fst Let_def)

lemma getNewMsgId_dvd4: "4 dvd lastMsgId s \<Longrightarrow> 4 dvd fst (getNewMsgId clock s ms)"
  using candidate_dvd4 by (simp add: getNewMsgId_fst Let_def)

text \<open>
  Candidates are multiples of 4, so from a last identifier that is one the next
  identifier is at least 4 larger, whichever branch is taken.
\<close>

lemma getNewMsgId_ge4:
  assumes "4 dvd lastMsgId s"
  shows "lastMsgId s + 4 \<le> fst (getNewMsgId clock s ms)"
proof -
  let ?c = "push_bit 32 (fst (clock ms (timeOffset s)))
            OR push_bit 2 (snd (clock ms (timeOffset s)))"
  have c: "4 dvd ?c" by (rule candidate_dvd4)
  show ?thesis
  proof (cases "?c \<le> lastMsgId s")
    case True
    then show ?thesis by (simp add: getNewMsgId_fst Let_def)
  next
    case False
    from assms c have "4 dvd (?c - lastMsgId s)" by (rule dvd_diff [rotated])
    with False have "4 \<le> ?c - lastMsgId s"
      by (intro zdvd_imp_le) auto
    with False show ?thesis by (simp add: getNewMsgId_fst Let_def)
  qed
qed

lemma getNewMsgIds_gt:
  "m \<in> set (fst (getNewMsgIds clock s mss)) \<Longrightarrow> lastMsgId s < m"
proof (induction mss arbitrary: s)
  case Nil
  then show ?case by simp
next
  case (Cons ms mss)
  obtain a s' where g: "getNewMsgId clock s ms = (a, s')"
    by (cases "getNewMsgId clock s ms")
  obtain ids s'' where r: "getNewMsgIds clock s' mss = (ids, s'')"
    by (cases "getNewMsgIds clock s' mss")
  have a: "lastMsgId s < a" using getNewMsgId_gt [of s clock ms] g by simp
  have l: "lastMsgId s' = a" using getNewMsgId_snd [of clock s ms] g by simp
  from Cons.prems g r have "m = a \<or> m \<in> set ids" by simp
  then show ?case
  proof
    assume "m = a"
    with a show ?thesis by simp
  next
    assume "m \<in> set ids"
    with Cons.IH [of s'] r l have "a < m" by simp
    with a show ?thesis by simp
  qed
qed

lemma getNewMsgIds_sorted: "sorted_wrt (<) (fst (getNewMsgIds clock s mss))"
proof (induction mss arbitrary: s)
  case Nil
  then show ?case by simp
next
  case (Cons ms mss)
  obtain a s' where g: "getNewMsgId clock s ms = (a, s')"
    by (cases "getNewMsgId clock s ms")
  obtain ids s'' where r: "getNewMsgIds clock s' mss = (ids, s'')"
    by (cases "getNewMsgIds clock s' mss")
  have l: "lastMsgId s' = a" using getNewMsgId_snd [of clock s ms] g by simp
  have "\<forall>m\<in>set ids. a < m" using getNewMsgIds_gt [of _ clock s' mss] r l by auto
  moreover have "sorted_wrt (<) ids" using Cons.IH [of s'] r by simp
  ultimately show ?case using g r by simp
qed

lemma updateTimeOffset_unfold:
  "updateTimeOffset clock s ms1 ms2 good =
     (let s1 = snd (getNewMsgId clock s ms1);
          new = drop_bit 32 good - ms2 div 1000
      in (new, if new \<noteq> timeOffset s1 then s1\<lparr>timeOffset := new, lastMsgId := 0\<rparr>
               else s1\<lparr>timeOffset := new\<rparr>))"
  by (simp add: updateTimeOffset_def Let_def split: prod.splits)

lemma updateTimeOffset_fst:
  "fst (updateTimeOffset clock s ms1 ms2 good) = drop_bit 32 good - ms2 div 1000"
  by (simp add: updateTimeOffset_unfold Let_def)

lemma updateTimeOffset_snd:
  "snd (updateTimeOffset clock s ms1 ms2 good) =
     s\<lparr>timeOffset := drop_bit 32 good - ms2 div 1000,
       lastMsgId := (if drop_bit 32 good - ms2 div 1000 \<noteq> timeOffset s then 0
                     else fst (getNewMsgId clock s ms1))\<rparr>"
  by (simp add: updateTimeOffset_unfold Let_def getNewMsgId_snd)

subsection \<open>The invariant of reachable states\<close>

lemma checkAndRecord_Inr:
  "checkAndRecord s r = Inr s' \<Longrightarrow>
     s' = s\<lparr>msgIds := (if length (msgIds s) > 500 then tl (msgIds s) else msgIds s) @ [r]\<rparr>"
  by (simp add: checkAndRecord_def split: if_splits)

lemma checkAndRecord_length:
  "checkAndRecord s r = Inr s' \<Longrightarrow> length (msgIds s) \<le> 501 \<Longrightarrow> length (msgIds s') \<le> 501"
  by (auto dest!: checkAndRecord_Inr)

lemma readMessage_state:
  "snd (readMessage ext s b) = s \<or> (\<exists>r. checkAndRecord s r = Inr (snd (readMessage ext s b)))"
  by (auto simp: readMessage_def split: sum.splits prod.splits option.splits)

lemma decryptMessageData_state:
  "snd (decryptMessageData ext s b) = s \<or>
   (\<exists>r. checkAndRecord s r = Inr (snd (decryptMessageData ext s b)))"
  using readMessage_state [of ext s]
  by (auto simp: decryptMessageData_def split: sum.splits)

lemma writeDataAsMessage_state:
  "snd (writeDataAsMessage ext clock s ms buffer data c afterId) =
     snd (getSeqNo (snd (getNewMsgId clock s ms)) c)"
  by (simp add: writeDataAsMessage_def Let_def split: prod.splits sum.splits)

lemma getSeqNo_state: "snd (getSeqNo s c) = (if c then s\<lparr>sequence := sequence s + 1\<rparr> else s)"
  by (simp add: getSeqNo_def Let_def)

lemma getNewMsgId_inv: "state_inv s \<Longrightarrow> state_inv (snd (getNewMsgId clock s ms))"
  using getNewMsgId_gt [of s clock ms] getNewMsgId_dvd4 [of s clock ms]
  by (simp add: state_inv_def getNewMsgId_snd)

lemma reachable_inv: "reachable ext clock s \<Longrightarrow> state_inv s"
proof (induction rule: reachable.induct)
  case (r_new ak checks rid)
  show ?case by (simp add: state_inv_def newState_def reset_def)
next
  case (r_reset s rid)
  then show ?case by (simp add: state_inv_def reset_def)
next
  case (r_salt s v)
  then show ?case by (simp add: state_inv_def)
next
  case (r_getNewMsgId s ms)
  from r_getNewMsgId.IH show ?case by (rule getNewMsgId_inv)
next
  case (r_getSeqNo s c)
  then show ?case by (simp add: state_inv_def getSeqNo_state)
next
  case (r_updateTimeOffset s ms1 ms2 good)
  from r_updateTimeOffset.IH have "state_inv (snd (getNewMsgId clock s ms1))"
    by (rule getNewMsgId_inv)
  then show ?case
    by (simp add: state_inv_def updateTimeOffset_snd getNewMsgId_snd)
next
  case (r_writeDataAsMessage s ms buffer data c afterId)
  from r_writeDataAsMessage.IH have "state_inv (snd (getNewMsgId clock s ms))"
    by (rule getNewMsgId_inv)
  then show ?case
    by (simp add: state_inv_def writeDataAsMessage_state getSeqNo_state)
next
  case (r_decryptMessageData s body)
  from decryptMessageData_state [of ext s body] show ?case
  proof
    assume "snd (decryptMessageData ext s body) = s"
    with r_decryptMessageData.IH show ?thesis by simp
  next
    assume "\<exists>r. checkAndRecord s r = Inr (snd (decryptMessageData ext s body))"
    then obtain r where r: "checkAndRecord s r = Inr (snd (decryptMessageData ext s body))" ..
    from checkAndRecord_Inr [OF r] checkAndRecord_length [OF r] r_decryptMessageData.IH
    show ?thesis by (simp add: state_inv_def)
  qed
qed

lemma reachable_demoState: "reachable ext clock demoState"
  unfolding demoState_def by (rule r_new)

lemma demoState_fields:
  "timeOffset demoState = 0" "lastMsgId demoState = 0" "msgIds demoState = []"
  "sequence demoState = 0" "securityChecks demoState" "authKey demoState = Some demoAuthKey"
  "salt demoState = 0" "id' demoState = 99"
  by (simp_all add: demoState_def newState_def reset_def)

text \<open>
  C3: the identifiers returned by successive calls of \<open>_getNewMsgId\<close> on one state are
  strictly increasing and all exceed the identifier stored before the first call,
  whatever the clock reads; a call returns \<open>lastMsgId + 4\<close> when the candidate
  \<open>(seconds << 32) | (nanoseconds << 2)\<close> is at most \<open>lastMsgId\<close> and the candidate
  otherwise, and stores what it returns as the new \<open>lastMsgId\<close>.
\<close>

theorem getNewMsgId_strictly_increasing:
  "sorted_wrt (<) (fst (getNewMsgIds clock s mss)) \<and>
   (\<forall>m\<in>set (fst (getNewMsgIds clock s mss)). lastMsgId s < m) \<and>
   fst (getNewMsgId clock s ms) =
     (let candidate = push_bit 32 (fst (clock ms (timeOffset s)))
                      OR push_bit 2 (snd (clock ms (timeOffset s)))
      in if candidate \<le> lastMsgId s then lastMsgId s + 4 else candidate) \<and>
   snd (getNewMsgId clock s ms) = s\<lparr>lastMsgId := fst (getNewMsgId clock s ms)\<rparr>"
  using getNewMsgIds_sorted [of clock s mss] getNewMsgIds_gt [of _ clock s mss]
    getNewMsgId_fst [of clock s ms] getNewMsgId_snd [of clock s ms]
  by blast

theorem getNewMsgId_strictly_increasing_witness:
  "sorted_wrt (<) (fst (getNewMsgIds exactClock demoState
                          [1700000000123, 1700000000123, 1699999999000])) \<and>
   fst (getNewMsgIds exactClock demoState [1700000000123, 1700000000123, 1699999999000]) =
     [7301444403692000000, 7301444403692000004, 7301444403692000008]"
proof -
  have a: "sorted_wrt (<) (fst (getNewMsgIds exactClock demoState
                                  [1700000000123, 1700000000123, 1699999999000]))"
    using getNewMsgId_strictly_increasing
      [of exactClock demoState "[1700000000123, 1700000000123, 1699999999000]"]
    by blast
  have b: "fst (getNewMsgIds exactClock demoState
                  [1700000000123, 1700000000123, 1699999999000]) =
           [7301444403692000000, 7301444403692000004, 7301444403692000008]"
    by (simp add: demoState_fields getNewMsgId_def exactClock_def)
  from a b show ?thesis by blast
qed

text \<open>
  C5: \<open>updateTimeOffset(correctMsgId)\<close> returns \<open>(correctMsgId >> 32)\<close> minus the floor of
  the local clock in seconds and stores it as the new \<open>timeOffset\<close>. When the value
  differs from the offset stored before, \<open>lastMsgId\<close> is set to zero, and in a reachable
  state \<open>lastMsgId\<close> is zero after the call exactly in that case. After such a reset the
  next identifier is the candidate of the next clock reading under the new offset (or
  4 when that candidate is not positive): it does not depend on the identifiers
  generated before.
\<close>

theorem updateTimeOffset_result:
  "fst (updateTimeOffset clock s ms1 ms2 correctMsgId) =
     drop_bit 32 correctMsgId - ms2 div 1000 \<and>
   timeOffset (snd (updateTimeOffset clock s ms1 ms2 correctMsgId)) =
     fst (updateTimeOffset clock s ms1 ms2 correctMsgId) \<and>
   (fst (updateTimeOffset clock s ms1 ms2 correctMsgId) \<noteq> timeOffset s \<longrightarrow>
      lastMsgId (snd (updateTimeOffset clock s ms1 ms2 correctMsgId)) = 0 \<and>
      fst (getNewMsgId clock (snd (updateTimeOffset clock s ms1 ms2 correctMsgId)) ms3) =
        (let new = drop_bit 32 correctMsgId - ms2 div 1000;
             candidate = push_bit 32 (fst (clock ms3 new)) OR push_bit 2 (snd (clock ms3 new))
         in if candidate \<le> 0 then 4 else candidate)) \<and>
   (reachable ext clock s \<longrightarrow>
      (lastMsgId (snd (updateTimeOffset clock s ms1 ms2 correctMsgId)) = 0) =
      (fst (updateTimeOffset clock s ms1 ms2 correctMsgId) \<noteq> timeOffset s))"
proof -
  let ?u = "updateTimeOffset clock s ms1 ms2 correctMsgId"
  have f: "fst ?u = drop_bit 32 correctMsgId - ms2 div 1000"
    by (rule updateTimeOffset_fst)
  have t: "timeOffset (snd ?u) = fst ?u"
    by (simp add: updateTimeOffset_snd updateTimeOffset_fst)
  have z: "lastMsgId (snd ?u) = 0" if "fst ?u \<noteq> timeOffset s"
    using that by (simp add: updateTimeOffset_snd updateTimeOffset_fst)
  have n: "fst (getNewMsgId clock (snd ?u) ms3) =
        (let new = drop_bit 32 correctMsgId - ms2 div 1000;
             candidate = push_bit 32 (fst (clock ms3 new)) OR push_bit 2 (snd (clock ms3 new))
         in if candidate \<le> 0 then 4 else candidate)" if "fst ?u \<noteq> timeOffset s"
    using z [OF that] t f by (simp add: getNewMsgId_fst Let_def)
  have r: "(lastMsgId (snd ?u) = 0) = (fst ?u \<noteq> timeOffset s)" if "reachable ext clock s"
  proof -
    from that have "0 \<le> lastMsgId s"
      using reachable_inv [of ext clock s] by (simp add: state_inv_def)
    with getNewMsgId_gt [of s clock ms1] have "fst (getNewMsgId clock s ms1) \<noteq> 0" by simp
    then show ?thesis by (simp add: updateTimeOffset_snd updateTimeOffset_fst)
  qed
  from f t z n r show ?thesis by blast
qed

theorem updateTimeOffset_result_witness:
  "fst (updateTimeOffset exactClock demoState 1700000000123 1700000000500
          7301444832696729600) = 100 \<and>
   timeOffset (snd (updateTimeOffset exactClock demoState 1700000000123 1700000000500
          7301444832696729600)) = 100 \<and>
   lastMsgId (snd (updateTimeOffset exactClock demoState 1700000000123 1700000000500
          7301444832696729600)) = 0 \<and>
   fst (getNewMsgId exactClock (snd (updateTimeOffset exactClock demoState 1700000000123
          1700000000500 7301444832696729600)) 1700000001000) = 7301444836991696896"
proof -
  let ?u = "updateTimeOffset exactClock demoState 1700000000123 1700000000500
              7301444832696729600"
  note res = updateTimeOffset_result [of exactClock demoState 1700000000123 1700000000500
      7301444832696729600 1700000001000 demoExt]
  have f: "fst ?u = 100" using res by (simp add: drop_bit_eq_div)
  then have d: "fst ?u \<noteq> timeOffset demoState" by (simp add: demoState_fields)
  have t: "timeOffset (snd ?u) = 100" using res f by simp
  have z: "lastMsgId (snd ?u) = 0" using res d by blast
  have "fst (getNewMsgId exactClock (snd ?u) 1700000001000) =
        (let new = drop_bit 32 7301444832696729600 - 1700000000500 div 1000;
             candidate = push_bit 32 (fst (exactClock 1700000001000 new))
                         OR push_bit 2 (snd (exactClock 1700000001000 new))
         in if candidate \<le> 0 then 4 else candidate)"
    using res d by blast
  then have n: "fst (getNewMsgId exactClock (snd ?u) 1700000001000) = 7301444836991696896"
    by (simp add: drop_bit_eq_div exactClock_def)
  from f t z n show ?thesis by blast
qed

text \<open>
  C10: \<open>updateTimeOffset\<close> first draws an identifier from \<open>_getNewMsgId\<close>, which moves
  \<open>lastMsgId\<close>, and only then computes the offset: its final state is the state after
  that draw with the offset stored and, when the offset changed, \<open>lastMsgId\<close> zeroed. So
  in a reachable state, when the computed offset equals the stored one, the call
  changes the state: \<open>lastMsgId\<close> becomes the drawn identifier, at least 4 above its
  value before, and is not zero.
\<close>

theorem updateTimeOffset_same_offset_advances:
  assumes "reachable ext clock s"
    and "fst (updateTimeOffset clock s ms1 ms2 good) = timeOffset s"
  shows "snd (updateTimeOffset clock s ms1 ms2 good) = snd (getNewMsgId clock s ms1) \<and>
         lastMsgId (snd (updateTimeOffset clock s ms1 ms2 good)) =
           fst (getNewMsgId clock s ms1) \<and>
         lastMsgId s + 4 \<le> lastMsgId (snd (updateTimeOffset clock s ms1 ms2 good)) \<and>
         lastMsgId (snd (updateTimeOffset clock s ms1 ms2 good)) \<noteq> 0 \<and>
         snd (updateTimeOffset clock s ms1 ms2 good) \<noteq> s"
proof -
  let ?u = "updateTimeOffset clock s ms1 ms2 good"
  from assms(1) have inv: "0 \<le> lastMsgId s" "4 dvd lastMsgId s"
    using reachable_inv [of ext clock s] by (simp_all add: state_inv_def)
  from assms(2) have same: "drop_bit 32 good - ms2 div 1000 = timeOffset s"
    by (simp add: updateTimeOffset_fst)
  have l: "lastMsgId (snd ?u) = fst (getNewMsgId clock s ms1)"
    using same by (simp add: updateTimeOffset_snd)
  have e: "snd ?u = snd (getNewMsgId clock s ms1)"
    using same by (simp add: updateTimeOffset_snd getNewMsgId_snd)
  have g: "lastMsgId s + 4 \<le> lastMsgId (snd ?u)"
    using getNewMsgId_ge4 [OF inv(2), of clock ms1] l by simp
  with inv(1) have nz: "lastMsgId (snd ?u) \<noteq> 0" by simp
  from g have "lastMsgId (snd ?u) \<noteq> lastMsgId s" by simp
  then have ne: "snd ?u \<noteq> s" by auto
  from e l g nz ne show ?thesis by blast
qed

theorem updateTimeOffset_same_offset_advances_witness:
  "reachable demoExt exactClock demoState \<and>
   fst (updateTimeOffset exactClock demoState 1700000000123 1700000000500
          7301444403200000000) = timeOffset demoState \<and>
   lastMsgId demoState = 0 \<and>
   lastMsgId (snd (updateTimeOffset exactClock demoState 1700000000123 1700000000500
          7301444403200000000)) = 7301444403692000000"
proof -
  let ?u = "updateTimeOffset exactClock demoState 1700000000123 1700000000500
              7301444403200000000"
  have r: "reachable demoExt exactClock demoState" by (rule reachable_demoState)
  have f: "fst ?u = timeOffset demoState"
    by (simp add: updateTimeOffset_fst drop_bit_eq_div demoState_fields)
  from updateTimeOffset_same_offset_advances [OF r f]
  have "lastMsgId (snd ?u) = fst (getNewMsgId exactClock demoState 1700000000123)"
    by blast
  then have l: "lastMsgId (snd ?u) = 7301444403692000000"
    by (simp add: getNewMsgId_def exactClock_def demoState_fields)
  from r f l show ?thesis by (simp add: demoState_fields)
qed

subsection \<open>Buffers and integers\<close>

lemma length_slice: "length (slice a i j) = min (j - i) (length a - i)"
  by (simp add: slice_def)

lemma slice_bytes_at: "j \<le> length a \<Longrightarrow> slice a i j = bytes_at a i j"
proof -
  assume j: "j \<le> length a"
  have "take (j - i) (drop i a) = map (\<lambda>k. a ! k) [i..<j]"
  proof (rule nth_equalityI)
    show "length (take (j - i) (drop i a)) = length (map (\<lambda>k. a ! k) [i..<j])"
      using j by simp
  next
    fix n assume "n < length (take (j - i) (drop i a))"
    with j have n: "n < j - i" by simp
    with j have "i + n < length a" by simp
    with n show "take (j - i) (drop i a) ! n = map (\<lambda>k. a ! k) [i..<j] ! n"
      by simp
  qed
  then show ?thesis by (simp add: slice_def bytes_at_def)
qed

lemma slice_prefix: "length a = n \<Longrightarrow> slice (a @ b) 0 n = a"
  by (simp add: slice_def)

lemma slice_middle: "length a = i \<Longrightarrow> length b = j - i \<Longrightarrow> slice (a @ b @ c) i j = b"
  by (simp add: slice_def)

lemma length_toSignedLittleBuffer: "length (toSignedLittleBuffer v n) = n"
  by (induction n arbitrary: v) auto

lemma toSignedLittleBuffer_numeral:
  "toSignedLittleBuffer v (numeral n) =
     word_of_int v # toSignedLittleBuffer (v div 256) (pred_numeral n)"
  by (simp add: numeral_eq_Suc)

lemma le_uint_toSignedLittleBuffer: "le_uint (toSignedLittleBuffer v n) = v mod 256 ^ n"
proof (induction n arbitrary: v)
  case 0
  then show ?case by simp
next
  case (Suc n)
  have "uint (word_of_int v :: byte) = v mod 256"
    by (simp add: uint_word_of_int take_bit_eq_mod)
  then have "le_uint (toSignedLittleBuffer v (Suc n)) = v mod 256 + 256 * (v div 256 mod 256 ^ n)"
    using Suc.IH [of "v div 256"] by simp
  also have "\<dots> = v mod (256 * 256 ^ n)"
    using zmod_zmult2_eq [of "256 ^ n" v 256] by simp
  finally show ?case by simp
qed

lemma readBigIntFromBuffer_unsigned:
  "0 \<le> v \<Longrightarrow> v < 256 ^ n \<Longrightarrow> readBigIntFromBuffer (toSignedLittleBuffer v n) False = v"
  by (simp add: readBigIntFromBuffer_def le_uint_toSignedLittleBuffer)

lemma readBigIntFromBuffer_signed:
  assumes "0 < n" and "- (2 ^ (8 * n - 1)) \<le> v" and "v < 2 ^ (8 * n - 1)"
  shows "readBigIntFromBuffer (toSignedLittleBuffer v n) True = v"
proof -
  have p: "(256 :: int) ^ n = 2 * 2 ^ (8 * n - 1)"
  proof -
    have "(256 :: int) ^ n = 2 ^ (8 * n)" by (simp add: power_mult)
    also have "8 * n = Suc (8 * n - 1)" using assms(1) by simp
    finally show ?thesis by simp
  qed
  show ?thesis
  proof (cases "0 \<le> v")
    case True
    with assms(3) p have "v mod 256 ^ n = v" by simp
    with assms(3) show ?thesis
      by (simp add: readBigIntFromBuffer_def le_uint_toSignedLittleBuffer
          length_toSignedLittleBuffer)
  next
    case False
    have "(v + 256 ^ n) mod 256 ^ n = v + 256 ^ n"
      using False assms(2) p by (intro mod_pos_pos_trivial) auto
    then have "v mod 256 ^ n = v + 256 ^ n" by simp
    with False assms(2) p show ?thesis
      by (simp add: readBigIntFromBuffer_def le_uint_toSignedLittleBuffer
          length_toSignedLittleBuffer power_mult)
  qed
qed

lemma readLong_append:
  "readLong (toSignedLittleBuffer v 8 @ rest) =
     Inr (readBigIntFromBuffer (toSignedLittleBuffer v 8) True, rest)"
  by (simp add: readLong_def length_toSignedLittleBuffer)

lemma readInt_append:
  "readInt (toSignedLittleBuffer v 4 @ rest) =
     Inr (readBigIntFromBuffer (toSignedLittleBuffer v 4) True, rest)"
  by (simp add: readInt_def length_toSignedLittleBuffer)

lemma readLong_value:
  "- (2 ^ 63) \<le> v \<Longrightarrow> v < 2 ^ 63 \<Longrightarrow> readLong (toSignedLittleBuffer v 8 @ rest) = Inr (v, rest)"
  using readBigIntFromBuffer_signed [of 8 v] by (simp add: readLong_append)

lemma readInt_value:
  "- (2 ^ 31) \<le> v \<Longrightarrow> v < 2 ^ 31 \<Longrightarrow> readInt (toSignedLittleBuffer v 4 @ rest) = Inr (v, rest)"
  using readBigIntFromBuffer_signed [of 4 v] by (simp add: readInt_append)

lemma length_readBufferFromBigInt: "length (readBufferFromBigInt kid n) = n"
  by (simp add: readBufferFromBigInt_def length_toSignedLittleBuffer)

lemma readBigIntFromBuffer_keyId:
  "readBigIntFromBuffer (readBufferFromBigInt kid 8) False = uint kid"
proof -
  have "uint kid < 2 ^ 64" using uint_bounded [of kid] by simp
  then have "uint kid < 256 ^ 8" by simp
  then show ?thesis
    unfolding readBufferFromBigInt_def by (intro readBigIntFromBuffer_unsigned) simp_all
qed

lemma length_generateRandomBytes: "length (generateRandomBytes rnd n) = n"
  by (simp add: generateRandomBytes_def)

lemma padding_arith:
  fixes l :: nat
  defines "n \<equiv> nat (helpers_mod (- (int l + 12)) 16 + 12)"
  shows "12 \<le> n" "n \<le> 27" "16 dvd (l + n)"
proof -
  let ?m = "(- (int l + 12)) mod 16"
  have m: "0 \<le> ?m" "?m < 16" by simp_all
  then have n: "int n = ?m + 12" by (simp add: n_def helpers_mod_def)
  from n m show "12 \<le> n" "n \<le> 27" by linarith+
  have "(int l + 12 + ?m) mod 16 = 0"
    by presburger
  then have "16 dvd (int l + int n)"
    using n by (simp add: mod_eq_0_iff_dvd add.assoc add.commute)
  then have "16 dvd int (l + n)" by simp
  then show "16 dvd (l + n)" by presburger
qed

subsection \<open>Key derivation\<close>

lemma calcKey_eq_spec:
  assumes "84 \<le> length masterKey" and "\<forall>b. length (sha256 ext b) = 32"
  shows "calcKey ext masterKey messageKey flag =
           spec_calcKey (sha256 ext) masterKey messageKey flag"
  using assms by (simp add: calcKey_def spec_calcKey_def Let_def slice_bytes_at)

lemma calcKey_lengths:
  assumes "\<forall>b. length (sha256 ext b) = 32"
  shows "length (fst (calcKey ext k m c)) = 32" and "length (snd (calcKey ext k m c)) = 32"
  using assms by (simp_all add: calcKey_def Let_def length_slice)

lemma length_demoSha256: "length (demoSha256 b) = 32"
  by (simp add: demoSha256_def)

lemma sha256_demoExt: "sha256 demoExt = demoSha256"
  by (simp add: demoExt_def)

lemma length_sha256_demoExt: "\<forall>b. length (sha256 demoExt b) = 32"
  by (simp add: sha256_demoExt length_demoSha256)

lemma length_demoKey: "length demoKey = 256"
  by (simp add: demoKey_def)

text \<open>
  C4: for a 256-byte master key, a 16-byte message key and a 32-byte digest, \<open>_calcKey\<close>
  returns the key and the initialisation vector that section 4.1 of the spec writes
  down, each 32 bytes long. It takes the digest, the two keys and the flag and no state,
  and returns the pair only: there is no state it could read or change.
\<close>

theorem calcKey_matches_spec:
  assumes "length masterKey = 256" and "length messageKey = 16"
    and "\<forall>b. length (sha256 ext b) = 32"
  shows "calcKey ext masterKey messageKey flag =
           spec_calcKey (sha256 ext) masterKey messageKey flag \<and>
         length (fst (calcKey ext masterKey messageKey flag)) = 32 \<and>
         length (snd (calcKey ext masterKey messageKey flag)) = 32"
  using assms calcKey_eq_spec [of masterKey ext messageKey flag]
    calcKey_lengths [of ext masterKey messageKey flag]
  by simp

theorem calcKey_matches_spec_witness:
  "length demoKey = 256 \<and>
   length (replicate 16 7 :: bytes) = 16 \<and>
   (\<forall>b. length (sha256 demoExt b) = 32) \<and>
   calcKey demoExt demoKey (replicate 16 7) False =
     spec_calcKey (sha256 demoExt) demoKey (replicate 16 7) False \<and>
   length (fst (calcKey demoExt demoKey (replicate 16 7) False)) = 32"
proof -
  have b: "length (replicate 16 7 :: bytes) = 16" by simp
  from calcKey_matches_spec [OF length_demoKey b length_sha256_demoExt, of False]
    length_demoKey b length_sha256_demoExt
  show ?thesis by blast
qed

subsection \<open>Encryption\<close>

lemma encryptMessageData_unfold:
  assumes "authKey s = Some ak" and "getKey ak = Some k" and "keyId ak = Some kid"
  shows "encryptMessageData ext rnd s data =
     (let pt = toSignedLittleBuffer (salt s) 8 @ toSignedLittleBuffer (id' s) 8 @ data;
          padding = generateRandomBytes rnd
            (nat (helpers_mod (- (int (length pt) + 12)) 16 + 12));
          msgKey = slice (sha256 ext (slice k 88 120 @ pt @ padding)) 8 24
      in Inr (readBufferFromBigInt kid 8 @ msgKey @
              encryptIge ext (fst (calcKey ext k msgKey True))
                (snd (calcKey ext k msgKey True)) (pt @ padding)))"
  using assms by (simp add: encryptMessageData_def Let_def case_prod_beta)

lemma serverEncryptMessageData_unfold:
  assumes "authKey s = Some ak" and "getKey ak = Some k" and "keyId ak = Some kid"
  shows "serverEncryptMessageData ext rnd s data =
     (let pt = toSignedLittleBuffer (salt s) 8 @ toSignedLittleBuffer (id' s) 8 @ data;
          padding = generateRandomBytes rnd
            (nat (helpers_mod (- (int (length pt) + 12)) 16 + 12));
          msgKey = slice (sha256 ext (slice k 96 128 @ pt @ padding)) 8 24
      in Inr (readBufferFromBigInt kid 8 @ msgKey @
              encryptIge ext (fst (calcKey ext k msgKey False))
                (snd (calcKey ext k msgKey False)) (pt @ padding)))"
  using assms by (simp add: serverEncryptMessageData_def Let_def case_prod_beta)

text \<open>
  C6: with a key, its identifier, a salt and a session identifier in place,
  \<open>encryptMessageData\<close> returns the 8 bytes of the key identifier, then the 16-byte
  message key, then the cipher text of the plaintext followed by the padding. The
  plaintext is the salt and the session identifier, 8 bytes each and little-endian,
  before the input. The padding has \<open>((-(len + 12)) mod 16) + 12\<close> bytes, \<open>len\<close> the length
  of that plaintext: between 12 and 27 bytes, bringing the total to a multiple of 16.
  The message key is bytes 8 to 24 of the digest of \<open>masterKey[88:120]\<close>, the plaintext
  and the padding.
\<close>

theorem encryptMessageData_layout:
  fixes s :: MTProtoState and data :: bytes and rnd :: "nat \<Rightarrow> byte"
    and ext :: "'obj Externals" and k :: bytes
  defines "pt \<equiv> toSignedLittleBuffer (salt s) 8 @ toSignedLittleBuffer (id' s) 8 @ data"
  defines "n \<equiv> nat ((- (int (length pt) + 12)) mod 16 + 12)"
  defines "padding \<equiv> generateRandomBytes rnd n"
  defines "msgKey \<equiv> slice (sha256 ext (slice k 88 120 @ pt @ padding)) 8 24"
  assumes "authKey s = Some ak" and "getKey ak = Some k" and "keyId ak = Some kid"
    and "\<forall>b. length (sha256 ext b) = 32"
  shows "encryptMessageData ext rnd s data =
           Inr (readBufferFromBigInt kid 8 @ msgKey @
                encryptIge ext (fst (calcKey ext k msgKey True))
                  (snd (calcKey ext k msgKey True)) (pt @ padding)) \<and>
         length (readBufferFromBigInt kid 8) = 8 \<and>
         length msgKey = 16 \<and>
         length pt = 16 + length data \<and>
         length padding = n \<and>
         12 \<le> n \<and> n \<le> 27 \<and>
         16 dvd length (pt @ padding)"
proof -
  have e: "encryptMessageData ext rnd s data =
           Inr (readBufferFromBigInt kid 8 @ msgKey @
                encryptIge ext (fst (calcKey ext k msgKey True))
                  (snd (calcKey ext k msgKey True)) (pt @ padding))"
    using encryptMessageData_unfold [OF assms(5-7), of ext rnd data]
    by (simp add: Let_def pt_def n_def padding_def msgKey_def helpers_mod_def)
  have k8: "length (readBufferFromBigInt kid 8) = 8"
    by (rule length_readBufferFromBigInt)
  have m16: "length msgKey = 16"
    using assms(8) by (simp add: msgKey_def length_slice)
  have lp: "length pt = 16 + length data"
    by (simp add: pt_def length_toSignedLittleBuffer)
  have ln: "length padding = n"
    by (simp add: padding_def length_generateRandomBytes)
  have n': "n = nat (helpers_mod (- (int (length pt) + 12)) 16 + 12)"
    by (simp add: n_def helpers_mod_def)
  have b: "12 \<le> n" "n \<le> 27" "16 dvd (length pt + n)"
    unfolding n' by (rule padding_arith)+
  from e k8 m16 lp ln b show ?thesis by simp
qed

subsection \<open>Decryption\<close>

lemma decryptBody_frame:
  assumes "keyId ak = Some kid" and "getKey ak = Some k" and "length mk = 16"
  shows "decryptBody ext (Some ak) (readBufferFromBigInt kid 8 @ mk @ c) =
     (let b = decryptIge ext (fst (calcKey ext k mk False)) (snd (calcKey ext k mk False)) c
      in if mk \<noteq> slice (sha256 ext (slice k 96 128 @ b)) 8 24 then Inl MsgKeyMismatch
         else Inr b)"
proof -
  let ?body = "readBufferFromBigInt kid 8 @ mk @ c"
  have l8: "length (readBufferFromBigInt kid 8) = 8" by (rule length_readBufferFromBigInt)
  have s0: "slice ?body 0 8 = readBufferFromBigInt kid 8"
    using l8 by (rule slice_prefix)
  have s8: "slice ?body 8 24 = mk"
    using l8 assms(3) by (intro slice_middle) simp_all
  have d24: "drop 24 ?body = c"
    using l8 assms(3) by simp
  have len: "\<not> length ?body < 8" using l8 by simp
  have "decryptBody ext (Some ak) ?body =
     (let b = decryptIge ext (fst (calcKey ext k mk False)) (snd (calcKey ext k mk False)) c
      in if mk \<noteq> slice (sha256 ext (slice k 96 (96 + 32) @ b)) 8 24 then Inl MsgKeyMismatch
         else Inr b)"
    unfolding decryptBody_def
    using assms(1,2) len
    by (simp only: s0 s8 d24 readBigIntFromBuffer_keyId Let_def case_prod_beta
        option.case if_False if_True simp_thms)
  then show ?thesis by simp
qed

lemma readMessage_errors:
  "fst (readMessage ext s b) = Inl e \<Longrightarrow> e \<in> {ReadPastEnd, DuplicateMsgIds, DecodeError}"
  by (auto simp: readMessage_def readLong_def readInt_def checkAndRecord_def
      split: sum.splits prod.splits option.splits if_splits)

text \<open>
  C7: once the key, the length of the buffer and the key identifier have passed the
  checks of lines 170-184, \<open>decryptMessageData\<close> fails with the message-key mismatch
  exactly when bytes 8 to 24 of the digest of \<open>masterKey[96:128]\<close> and the decrypted body
  differ from bytes 8 to 24 of the input. On a mismatch the state is returned as it
  was, so nothing was recorded in the replay window; whether the mismatch is raised
  does not depend on the replay window or on the security-check flag; and only without
  a mismatch are the fields of the decrypted body read.
\<close>

theorem decryptMessageData_msgKey_check:
  fixes ext :: "'obj Externals" and body k :: bytes
  defines "msgKey \<equiv> slice body 8 24"
  defines "pt \<equiv> decryptIge ext (fst (calcKey ext k msgKey False))
                   (snd (calcKey ext k msgKey False)) (drop 24 body)"
  assumes "authKey s = Some ak" and "8 \<le> length body" and "keyId ak = Some kid"
    and "readBigIntFromBuffer (slice body 0 8) False = uint kid" and "getKey ak = Some k"
  shows "(fst (decryptMessageData ext s body) = Inl MsgKeyMismatch) =
           (slice (sha256 ext (slice k 96 128 @ pt)) 8 24 \<noteq> msgKey) \<and>
         (slice (sha256 ext (slice k 96 128 @ pt)) 8 24 \<noteq> msgKey \<longrightarrow>
            decryptMessageData ext s body = (Inl MsgKeyMismatch, s)) \<and>
         (slice (sha256 ext (slice k 96 128 @ pt)) 8 24 = msgKey \<longrightarrow>
            decryptMessageData ext s body = readMessage ext s pt) \<and>
         (fst (decryptMessageData ext (s\<lparr>msgIds := w, securityChecks := c\<rparr>) body) =
            Inl MsgKeyMismatch) =
           (fst (decryptMessageData ext s body) = Inl MsgKeyMismatch)"
proof -
  let ?ours = "slice (sha256 ext (slice k 96 128 @ pt)) 8 24"
  have b: "decryptBody ext (authKey s) body =
             (if msgKey \<noteq> ?ours then Inl MsgKeyMismatch else Inr pt)"
    using assms(3-7)
    by (simp add: decryptBody_def Let_def msgKey_def pt_def case_prod_beta)
  have nm: "fst (readMessage ext t pt) \<noteq> Inl MsgKeyMismatch" for t
    using readMessage_errors [of ext t pt MsgKeyMismatch] by auto
  have m: "decryptMessageData ext s body = (Inl MsgKeyMismatch, s)" if "?ours \<noteq> msgKey"
    using that b by (auto simp: decryptMessageData_def)
  have r: "decryptMessageData ext t body = readMessage ext t pt"
    if "?ours = msgKey" and "authKey t = authKey s" for t
    using that b by (simp add: decryptMessageData_def)
  have i: "(fst (decryptMessageData ext t body) = Inl MsgKeyMismatch) = (?ours \<noteq> msgKey)"
    if "authKey t = authKey s" for t
  proof (cases "?ours = msgKey")
    case True
    with r [OF True that] nm [of t] show ?thesis by simp
  next
    case False
    with b that show ?thesis by (auto simp: decryptMessageData_def)
  qed
  have "authKey (s\<lparr>msgIds := w, securityChecks := c\<rparr>) = authKey s" by simp
  from i [OF this] i [of s] m r [of s] show ?thesis by simp
qed

subsection \<open>Evaluation of the fixtures\<close>

lemma slice_demoKey: "j \<le> 256 \<Longrightarrow> slice demoKey i j = map of_nat [i..<j]"
proof (cases "i \<le> j")
  case True
  assume "j \<le> 256"
  with True have "take (j - i) [i..<256] = [i..<j]" by simp
  then show ?thesis by (simp add: slice_def demoKey_def take_map drop_map)
next
  case False
  then show ?thesis by (simp add: slice_def)
qed

lemma demoSha256_slice:
  "j \<le> 32 \<Longrightarrow> slice (demoSha256 b) i j = map (\<lambda>n. demoChecksum b + of_nat n) [i..<j]"
proof (cases "i \<le> j")
  case True
  assume "j \<le> 32"
  with True have "take (j - i) [i..<32] = [i..<j]" by simp
  then show ?thesis by (simp add: slice_def demoSha256_def take_map drop_map)
next
  case False
  then show ?thesis by (simp add: slice_def)
qed

lemma demoAuthKey_fields:
  "getKey demoAuthKey = Some demoKey" "keyId demoAuthKey = Some 0x0102030405060708"
  by (simp_all add: demoAuthKey_def)

lemma demo_keyId_bytes: "readBufferFromBigInt 0x0102030405060708 8 = [8, 7, 6, 5, 4, 3, 2, 1]"
  by (simp add: readBufferFromBigInt_def toSignedLittleBuffer_numeral)

lemma demo_plain:
  "(toSignedLittleBuffer (salt demoState) 8 @ toSignedLittleBuffer (id' demoState) 8 @
     demoFrame) @ generateRandomBytes demoRnd 12 = demoPlain"
  by (simp add: demoState_fields toSignedLittleBuffer_numeral demoFrame_def demoPlain_def
      generateRandomBytes_def demoRnd_def upt_rec)

lemma demo_padding_length:
  "nat (helpers_mod (- (int (length (toSignedLittleBuffer (salt demoState) 8 @
          toSignedLittleBuffer (id' demoState) 8 @ demoFrame)) + 12)) 16 + 12) = 12"
  by (simp add: length_toSignedLittleBuffer demoFrame_def helpers_mod_def)

lemma demo_msgKey: "slice (demoSha256 (slice demoKey 88 120 @ demoPlain)) 8 24 = demoMsgKey"
proof -
  have "demoChecksum (slice demoKey 88 120 @ demoPlain) = 113"
    by (simp add: slice_demoKey demoChecksum_def demoPlain_def upt_rec)
  then show ?thesis
    by (simp add: demoSha256_slice demoMsgKey_def upt_rec)
qed

lemma demo_shift_client:
  "demoShift (fst (calcKey demoExt demoKey demoMsgKey True))
     (snd (calcKey demoExt demoKey demoMsgKey True)) = 140"
proof -
  have a: "demoChecksum (demoMsgKey @ slice demoKey 0 36) = 249"
    by (simp add: slice_demoKey demoChecksum_def demoMsgKey_def upt_rec)
  have b: "demoChecksum (slice demoKey 40 76 @ demoMsgKey) = 208"
    by (simp add: slice_demoKey demoChecksum_def demoMsgKey_def upt_rec)
  have "calcKey demoExt demoKey demoMsgKey True =
     ([249, 250, 251, 252, 253, 254, 255, 0, 216, 217, 218, 219, 220, 221, 222, 223,
       224, 225, 226, 227, 228, 229, 230, 231, 17, 18, 19, 20, 21, 22, 23, 24],
      [208, 209, 210, 211, 212, 213, 214, 215, 1, 2, 3, 4, 5, 6, 7, 8,
       9, 10, 11, 12, 13, 14, 15, 16, 232, 233, 234, 235, 236, 237, 238, 239])"
    by (simp add: calcKey_def Let_def sha256_demoExt demoSha256_slice a b upt_rec)
  then show ?thesis
    by (simp add: demoShift_def demoChecksum_def)
qed

lemma demo_shift_other:
  "demoShift (fst (calcKey demoExt demoKey demoMsgKey False))
     (snd (calcKey demoExt demoKey demoMsgKey False)) = 139"
proof -
  have a: "demoChecksum (demoMsgKey @ slice demoKey 8 44) = 196"
    by (simp add: slice_demoKey demoChecksum_def demoMsgKey_def upt_rec)
  have b: "demoChecksum (slice demoKey 48 84 @ demoMsgKey) = 101"
    by (simp add: slice_demoKey demoChecksum_def demoMsgKey_def upt_rec)
  have "calcKey demoExt demoKey demoMsgKey False =
     ([196, 197, 198, 199, 200, 201, 202, 203, 109, 110, 111, 112, 113, 114, 115, 116,
       117, 118, 119, 120, 121, 122, 123, 124, 220, 221, 222, 223, 224, 225, 226, 227],
      [101, 102, 103, 104, 105, 106, 107, 108, 204, 205, 206, 207, 208, 209, 210, 211,
       212, 213, 214, 215, 216, 217, 218, 219, 125, 126, 127, 128, 129, 130, 131, 132])"
    by (simp add: calcKey_def Let_def sha256_demoExt demoSha256_slice a b upt_rec)
  then show ?thesis
    by (simp add: demoShift_def demoChecksum_def)
qed

lemma encryptMessageData_eval:
  assumes "authKey s = Some ak" and "getKey ak = Some k" and "keyId ak = Some kid"
    and "nat (helpers_mod (- (int (length (toSignedLittleBuffer (salt s) 8 @
           toSignedLittleBuffer (id' s) 8 @ data)) + 12)) 16 + 12) = n"
    and "(toSignedLittleBuffer (salt s) 8 @ toSignedLittleBuffer (id' s) 8 @ data) @
           generateRandomBytes rnd n = padded"
    and "slice (sha256 ext (slice k 88 120 @ padded)) 8 24 = mk"
    and "encryptIge ext (fst (calcKey ext k mk True)) (snd (calcKey ext k mk True)) padded = ct"
  shows "encryptMessageData ext rnd s data = Inr (readBufferFromBigInt kid 8 @ mk @ ct)"
  unfolding encryptMessageData_unfold [OF assms(1-3)] Let_def assms(4) assms(5) assms(6)
    assms(7)
  by (rule refl)

lemma serverEncryptMessageData_eval:
  assumes "authKey s = Some ak" and "getKey ak = Some k" and "keyId ak = Some kid"
    and "nat (helpers_mod (- (int (length (toSignedLittleBuffer (salt s) 8 @
           toSignedLittleBuffer (id' s) 8 @ data)) + 12)) 16 + 12) = n"
    and "(toSignedLittleBuffer (salt s) 8 @ toSignedLittleBuffer (id' s) 8 @ data) @
           generateRandomBytes rnd n = padded"
    and "slice (sha256 ext (slice k 96 128 @ padded)) 8 24 = mk"
    and "encryptIge ext (fst (calcKey ext k mk False)) (snd (calcKey ext k mk False)) padded = ct"
  shows "serverEncryptMessageData ext rnd s data = Inr (readBufferFromBigInt kid 8 @ mk @ ct)"
  unfolding serverEncryptMessageData_unfold [OF assms(1-3)] Let_def assms(4) assms(5) assms(6)
    assms(7)
  by (rule refl)

lemma demoExt_cipher:
  "encryptIge demoExt key iv b = map (\<lambda>x. x + demoShift key iv) b"
  "decryptIge demoExt key iv b = map (\<lambda>x. x - demoShift key iv) b"
  by (simp_all add: demoExt_def)

lemma demo_encrypt: "encryptMessageData demoExt demoRnd demoState demoFrame = Inr demoCipher"
proof -
  have m: "slice (sha256 demoExt (slice demoKey 88 120 @ demoPlain)) 8 24 = demoMsgKey"
    by (simp add: sha256_demoExt demo_msgKey)
  have c: "encryptIge demoExt (fst (calcKey demoExt demoKey demoMsgKey True))
             (snd (calcKey demoExt demoKey demoMsgKey True)) demoPlain = demoCipherText"
    by (simp add: demoExt_cipher demo_shift_client demoPlain_def demoCipherText_def)
  from encryptMessageData_eval [OF demoState_fields(6) demoAuthKey_fields
      demo_padding_length demo_plain m c]
  show ?thesis by (simp add: demo_keyId_bytes demoCipher_def)
qed

lemma demo_decrypt_other:
  "decryptIge demoExt (fst (calcKey demoExt demoKey demoMsgKey False))
     (snd (calcKey demoExt demoKey demoMsgKey False)) demoCipherText = demoGarbled"
  by (simp add: demoExt_cipher demo_shift_other demoCipherText_def demoGarbled_def)

lemma demo_ourKey:
  "slice (sha256 demoExt (slice demoKey 96 128 @ demoGarbled)) 8 24 \<noteq> demoMsgKey"
proof -
  have "demoChecksum (slice demoKey 96 128 @ demoGarbled) = 28"
    by (simp add: slice_demoKey demoChecksum_def demoGarbled_def upt_rec)
  then show ?thesis
    by (simp add: sha256_demoExt demoSha256_slice demoMsgKey_def upt_rec)
qed

lemma demo_decryptBody: "decryptBody demoExt (Some demoAuthKey) demoCipher = Inl MsgKeyMismatch"
proof -
  have "length demoMsgKey = 16" by (simp add: demoMsgKey_def)
  from decryptBody_frame [OF demoAuthKey_fields(2,1) this, of demoExt demoCipherText]
  show ?thesis
    using demo_ourKey
    by (simp add: demo_keyId_bytes demoCipher_def demo_decrypt_other Let_def)
qed

subsection \<open>Decryption of a frame of the server direction\<close>

lemma readMessage_frame:
  assumes "- (2 ^ 63) \<le> mid" and "mid < 2 ^ 63" and "- (2 ^ 31) \<le> sq" and "sq < 2 ^ 31"
  shows "readMessage ext s
           (toSignedLittleBuffer sa 8 @ toSignedLittleBuffer si 8 @ toSignedLittleBuffer mid 8 @
            toSignedLittleBuffer sq 4 @ toSignedLittleBuffer len 4 @ rest) =
         (case checkAndRecord s mid of
            Inl e \<Rightarrow> (Inl e, s)
          | Inr s' \<Rightarrow>
              (case tgReadObject ext rest of
                 None \<Rightarrow> (Inl DecodeError, s')
               | Some ob \<Rightarrow> (Inr \<lparr>msgId = mid, seqNo = sq, obj = ob\<rparr>, s')))"
proof -
  have m: "readBigIntFromBuffer (toSignedLittleBuffer mid 8) True = mid"
    using readBigIntFromBuffer_signed [of 8 mid] assms(1,2) by simp
  have q: "readBigIntFromBuffer (toSignedLittleBuffer sq 4) True = sq"
    using readBigIntFromBuffer_signed [of 4 sq] assms(3,4) by simp
  show ?thesis
    by (simp add: readMessage_def readLong_append readInt_append m q split: sum.splits)
qed

lemma decryptBody_serverEncrypt:
  assumes "authKey s = Some ak" and "getKey ak = Some k" and "keyId ak = Some kid"
    and "\<forall>b. length (sha256 ext b) = 32"
    and "\<forall>key iv b. decryptIge ext key iv (encryptIge ext key iv b) = b"
    and "serverEncryptMessageData ext rnd s data = Inr c"
  shows "decryptBody ext (authKey s) c =
           Inr (toSignedLittleBuffer (salt s) 8 @ toSignedLittleBuffer (id' s) 8 @ data @
                generateRandomBytes rnd
                  (nat ((- (int (16 + length data) + 12)) mod 16 + 12)))"
proof -
  let ?pt = "toSignedLittleBuffer (salt s) 8 @ toSignedLittleBuffer (id' s) 8 @ data"
  let ?pad = "generateRandomBytes rnd (nat (helpers_mod (- (int (length ?pt) + 12)) 16 + 12))"
  let ?mk = "slice (sha256 ext (slice k 96 128 @ ?pt @ ?pad)) 8 24"
  let ?ct = "encryptIge ext (fst (calcKey ext k ?mk False)) (snd (calcKey ext k ?mk False))
               (?pt @ ?pad)"
  have c: "c = readBufferFromBigInt kid 8 @ ?mk @ ?ct"
    using serverEncryptMessageData_unfold [OF assms(1-3), of ext rnd data] assms(6)
    by (simp add: Let_def)
  have l: "length ?mk = 16"
    using assms(4) by (simp add: length_slice)
  have d: "decryptIge ext (fst (calcKey ext k ?mk False)) (snd (calcKey ext k ?mk False)) ?ct =
             ?pt @ ?pad"
    using assms(5) by simp
  have "decryptBody ext (Some ak) (readBufferFromBigInt kid 8 @ ?mk @ ?ct) = Inr (?pt @ ?pad)"
    unfolding decryptBody_frame [OF assms(3) assms(2) l] d Let_def by simp
  then show ?thesis
    unfolding c assms(1)
    by (simp add: length_toSignedLittleBuffer helpers_mod_def add.commute)
qed

lemma demoExt_ige_inverse:
  "\<forall>key iv b. decryptIge demoExt key iv (encryptIge demoExt key iv b) = b"
  by (simp add: demoExt_cipher o_def)

lemma demo_tgReadObject:
  "tgReadObject demoExt r = (if length r < 4 then None else Some (take 4 r))"
  by (simp add: demoExt_def)

lemma demo_tgReadObject_payload:
  "\<forall>rest. tgReadObject demoExt ([10, 20, 30, 40] @ rest) = Some [10, 20, 30, 40]"
  by (simp add: demo_tgReadObject)

lemma demo_server_msgKey:
  "slice (demoSha256 (slice demoKey 96 128 @ demoPlain)) 8 24 = demoServerMsgKey"
proof -
  have "demoChecksum (slice demoKey 96 128 @ demoPlain) = 95"
    by (simp add: slice_demoKey demoChecksum_def demoPlain_def upt_rec)
  then show ?thesis
    by (simp add: demoSha256_slice demoServerMsgKey_def upt_rec)
qed

lemma demo_shift_server:
  "demoShift (fst (calcKey demoExt demoKey demoServerMsgKey False))
     (snd (calcKey demoExt demoKey demoServerMsgKey False)) = 165"
proof -
  have a: "demoChecksum (demoServerMsgKey @ slice demoKey 8 44) = 115"
    by (simp add: slice_demoKey demoChecksum_def demoServerMsgKey_def upt_rec)
  have b: "demoChecksum (slice demoKey 48 84 @ demoServerMsgKey) = 55"
    by (simp add: slice_demoKey demoChecksum_def demoServerMsgKey_def upt_rec)
  have "calcKey demoExt demoKey demoServerMsgKey False =
     ([115, 116, 117, 118, 119, 120, 121, 122, 63, 64, 65, 66, 67, 68, 69, 70,
       71, 72, 73, 74, 75, 76, 77, 78, 139, 140, 141, 142, 143, 144, 145, 146],
      [55, 56, 57, 58, 59, 60, 61, 62, 123, 124, 125, 126, 127, 128, 129, 130,
       131, 132, 133, 134, 135, 136, 137, 138, 79, 80, 81, 82, 83, 84, 85, 86])"
    by (simp add: calcKey_def Let_def sha256_demoExt demoSha256_slice a b upt_rec)
  then show ?thesis
    by (simp add: demoShift_def demoChecksum_def)
qed

lemma demo_serverEncrypt:
  "serverEncryptMessageData demoExt demoRnd demoState demoFrame = Inr demoServerCipher"
proof -
  have m: "slice (sha256 demoExt (slice demoKey 96 128 @ demoPlain)) 8 24 = demoServerMsgKey"
    by (simp add: sha256_demoExt demo_server_msgKey)
  have c: "encryptIge demoExt (fst (calcKey demoExt demoKey demoServerMsgKey False))
             (snd (calcKey demoExt demoKey demoServerMsgKey False)) demoPlain =
           demoServerCipherText"
    by (simp add: demoExt_cipher demo_shift_server demoPlain_def demoServerCipherText_def)
  from serverEncryptMessageData_eval [OF demoState_fields(6) demoAuthKey_fields
      demo_padding_length demo_plain m c]
  show ?thesis by (simp add: demo_keyId_bytes demoServerCipher_def)
qed

lemma demoFrame_framed:
  "demoFrame = toSignedLittleBuffer 7301444403692000000 8 @ toSignedLittleBuffer 1 4 @
               toSignedLittleBuffer (int (length [10, 20, 30, 40 :: byte])) 4 @ [10, 20, 30, 40]"
  by (simp add: demoFrame_def toSignedLittleBuffer_numeral)

subsection \<open>Witnesses for encryption and the message-key check\<close>

theorem encryptMessageData_layout_witness:
  "authKey demoState = Some demoAuthKey \<and>
   getKey demoAuthKey = Some demoKey \<and>
   keyId demoAuthKey = Some 0x0102030405060708 \<and>
   (\<forall>b. length (sha256 demoExt b) = 32) \<and>
   encryptMessageData demoExt demoRnd demoState demoFrame =
     Inr ([8, 7, 6, 5, 4, 3, 2, 1] @ demoMsgKey @ demoCipherText) \<and>
   length demoMsgKey = 16 \<and>
   16 dvd length demoPlain"
proof -
  note h = demoState_fields(6) demoAuthKey_fields length_sha256_demoExt
  have p: "(toSignedLittleBuffer (salt demoState) 8 @ toSignedLittleBuffer (id' demoState) 8 @
             demoFrame) @
           generateRandomBytes demoRnd
             (nat ((- (int (length (toSignedLittleBuffer (salt demoState) 8 @
                  toSignedLittleBuffer (id' demoState) 8 @ demoFrame)) + 12)) mod 16 + 12)) =
           demoPlain"
    using demo_plain demo_padding_length by (simp add: helpers_mod_def)
  from encryptMessageData_layout [OF h, of demoRnd demoFrame]
  have "16 dvd length ((toSignedLittleBuffer (salt demoState) 8 @
          toSignedLittleBuffer (id' demoState) 8 @ demoFrame) @
          generateRandomBytes demoRnd
             (nat ((- (int (length (toSignedLittleBuffer (salt demoState) 8 @
                  toSignedLittleBuffer (id' demoState) 8 @ demoFrame)) + 12)) mod 16 + 12)))"
    by blast
  then have d: "16 dvd length demoPlain" by (simp only: p)
  have e: "encryptMessageData demoExt demoRnd demoState demoFrame =
             Inr ([8, 7, 6, 5, 4, 3, 2, 1] @ demoMsgKey @ demoCipherText)"
    using demo_encrypt by (simp add: demoCipher_def)
  have l: "length demoMsgKey = 16" by (simp add: demoMsgKey_def)
  from h d e l show ?thesis by blast
qed

lemma demoCipher_parts:
  "slice demoCipher 0 8 = [8, 7, 6, 5, 4, 3, 2, 1]" "slice demoCipher 8 24 = demoMsgKey"
  "drop 24 demoCipher = demoCipherText" "length demoCipher = 72"
  by (simp_all add: demoCipher_def slice_def demoMsgKey_def demoCipherText_def)

theorem decryptMessageData_msgKey_check_witness:
  "authKey demoState = Some demoAuthKey \<and>
   8 \<le> length demoCipher \<and>
   keyId demoAuthKey = Some 0x0102030405060708 \<and>
   readBigIntFromBuffer (slice demoCipher 0 8) False = uint (0x0102030405060708 :: 64 word) \<and>
   getKey demoAuthKey = Some demoKey \<and>
   slice (sha256 demoExt (slice demoKey 96 128 @ demoGarbled)) 8 24 \<noteq> slice demoCipher 8 24 \<and>
   decryptMessageData demoExt demoState demoCipher = (Inl MsgKeyMismatch, demoState)"
proof -
  have a: "authKey demoState = Some demoAuthKey" by (rule demoState_fields)
  have b: "8 \<le> length demoCipher" by (simp add: demoCipher_parts)
  have c: "keyId demoAuthKey = Some 0x0102030405060708" by (rule demoAuthKey_fields)
  have d: "readBigIntFromBuffer (slice demoCipher 0 8) False =
             uint (0x0102030405060708 :: 64 word)"
    using readBigIntFromBuffer_keyId [of "0x0102030405060708"]
    by (simp only: demoCipher_parts demo_keyId_bytes)
  have e: "getKey demoAuthKey = Some demoKey" by (rule demoAuthKey_fields)
  have p: "decryptIge demoExt (fst (calcKey demoExt demoKey (slice demoCipher 8 24) False))
             (snd (calcKey demoExt demoKey (slice demoCipher 8 24) False))
             (drop 24 demoCipher) = demoGarbled"
    by (simp only: demoCipher_parts demo_decrypt_other)
  have n: "slice (sha256 demoExt (slice demoKey 96 128 @ demoGarbled)) 8 24 \<noteq>
             slice demoCipher 8 24"
    unfolding demoCipher_parts by (rule demo_ourKey)
  from decryptMessageData_msgKey_check [OF a b c d e, where ext = demoExt]
  have "slice (sha256 demoExt (slice demoKey 96 128 @ demoGarbled)) 8 24 \<noteq>
          slice demoCipher 8 24 \<longrightarrow>
        decryptMessageData demoExt demoState demoCipher = (Inl MsgKeyMismatch, demoState)"
    unfolding p by blast
  with n have "decryptMessageData demoExt demoState demoCipher = (Inl MsgKeyMismatch, demoState)"
    by blast
  with a b c d e n show ?thesis by blast
qed

subsection \<open>The replay window\<close>

lemma checkAndRecord_ok:
  "r \<notin> set (msgIds s) \<or> \<not> securityChecks s \<Longrightarrow>
   checkAndRecord s r =
     Inr (s\<lparr>msgIds := (if length (msgIds s) > 500 then tl (msgIds s) else msgIds s) @ [r]\<rparr>)"
  by (auto simp: checkAndRecord_def)

lemma checkAndRecord_dup:
  "r \<in> set (msgIds s) \<Longrightarrow> securityChecks s \<Longrightarrow> checkAndRecord s r = Inl DuplicateMsgIds"
  by (simp add: checkAndRecord_def)

lemma window_step:
  assumes "length ms \<le> 501"
  shows "drop (length ((if length ms > 500 then tl ms else ms) @ [r] @ rs) - 501)
              ((if length ms > 500 then tl ms else ms) @ [r] @ rs) =
         drop (length (ms @ r # rs) - 501) (ms @ r # rs)"
proof (cases "length ms > 500")
  case True
  with assms have l: "length ms = 501" by simp
  then have ne: "ms \<noteq> []" by auto
  have "drop (length (ms @ r # rs) - 501) (ms @ r # rs) = drop (Suc (length rs)) (ms @ r # rs)"
    using l by simp
  also have "\<dots> = drop (length rs) (tl (ms @ r # rs))"
    by (simp only: drop_Suc)
  also have "\<dots> = drop (length rs) (tl ms @ r # rs)"
    using ne by simp
  finally show ?thesis using True l by simp
next
  case False
  then show ?thesis by simp
qed

text \<open>
  Recording identifiers that are never rejected keeps the last 501 of what the window
  held and what was recorded.
\<close>

lemma checkAndRecordAll_window:
  assumes "distinct (msgIds s @ rs) \<or> \<not> securityChecks s"
    and "length (msgIds s) \<le> 501"
  shows "checkAndRecordAll s rs =
           Inr (s\<lparr>msgIds := drop (length (msgIds s @ rs) - 501) (msgIds s @ rs)\<rparr>)"
  using assms
proof (induction rs arbitrary: s)
  case Nil
  then show ?case by simp
next
  case (Cons r rs)
  let ?ms = "if length (msgIds s) > 500 then tl (msgIds s) else msgIds s"
  let ?s1 = "s\<lparr>msgIds := ?ms @ [r]\<rparr>"
  from Cons.prems(1) have "r \<notin> set (msgIds s) \<or> \<not> securityChecks s" by auto
  then have c: "checkAndRecord s r = Inr ?s1" by (rule checkAndRecord_ok)
  have sub: "set ?ms \<subseteq> set (msgIds s)"
    by (cases "msgIds s") auto
  have dm: "distinct (msgIds s) \<Longrightarrow> distinct ?ms"
    by (simp add: distinct_tl)
  from Cons.prems(1) sub dm have d1: "distinct (msgIds ?s1 @ rs) \<or> \<not> securityChecks ?s1"
    by auto
  from Cons.prems(2) have l1: "length (msgIds ?s1) \<le> 501" by auto
  from Cons.IH [OF d1 l1] c
  have "checkAndRecordAll s (r # rs) =
          Inr (?s1\<lparr>msgIds := drop (length (msgIds ?s1 @ rs) - 501) (msgIds ?s1 @ rs)\<rparr>)"
    by simp
  also have "drop (length (msgIds ?s1 @ rs) - 501) (msgIds ?s1 @ rs) =
             drop (length (msgIds s @ r # rs) - 501) (msgIds s @ r # rs)"
    using window_step [OF Cons.prems(2), of r rs] by simp
  finally show ?case by simp
qed

subsection \<open>Round trip\<close>

lemma decryptMessageData_serverEncrypt:
  fixes payload :: bytes and rnd :: "nat \<Rightarrow> byte" and mid sq :: int
  defines "frame \<equiv> toSignedLittleBuffer mid 8 @ toSignedLittleBuffer sq 4 @
                    toSignedLittleBuffer (int (length payload)) 4 @ payload"
  defines "padding \<equiv> generateRandomBytes rnd
                        (nat ((- (int (16 + length frame) + 12)) mod 16 + 12))"
  assumes "authKey s = Some ak" and "getKey ak = Some k" and "keyId ak = Some kid"
    and "\<forall>b. length (sha256 ext b) = 32"
    and "\<forall>key iv b. decryptIge ext key iv (encryptIge ext key iv b) = b"
    and "- (2 ^ 63) \<le> mid" and "mid < 2 ^ 63" and "- (2 ^ 31) \<le> sq" and "sq < 2 ^ 31"
    and "serverEncryptMessageData ext rnd s frame = Inr c"
  shows "decryptMessageData ext s c =
           (case checkAndRecord s mid of
              Inl e \<Rightarrow> (Inl e, s)
            | Inr s' \<Rightarrow>
                (case tgReadObject ext (payload @ padding) of
                   None \<Rightarrow> (Inl DecodeError, s')
                 | Some ob \<Rightarrow> (Inr \<lparr>msgId = mid, seqNo = sq, obj = ob\<rparr>, s')))"
proof -
  have "decryptBody ext (authKey s) c =
          Inr (toSignedLittleBuffer (salt s) 8 @ toSignedLittleBuffer (id' s) 8 @ frame @ padding)"
    unfolding padding_def by (rule decryptBody_serverEncrypt [OF assms(3-7) assms(12)])
  then have "decryptMessageData ext s c =
               readMessage ext s (toSignedLittleBuffer (salt s) 8 @
                 toSignedLittleBuffer (id' s) 8 @ toSignedLittleBuffer mid 8 @
                 toSignedLittleBuffer sq 4 @ toSignedLittleBuffer (int (length payload)) 4 @
                 payload @ padding)"
    by (simp add: decryptMessageData_def frame_def)
  then show ?thesis
    by (simp only: readMessage_frame [OF assms(8-11)])
qed

lemma demo_decrypt_server:
  "decryptMessageData demoExt demoState demoServerCipher =
     (Inr \<lparr>msgId = 7301444403692000000, seqNo = 1, obj = [10, 20, 30, 40]\<rparr>,
      demoState\<lparr>msgIds := [7301444403692000000]\<rparr>)"
proof -
  have e: "serverEncryptMessageData demoExt demoRnd demoState
             (toSignedLittleBuffer 7301444403692000000 8 @ toSignedLittleBuffer 1 4 @
              toSignedLittleBuffer (int (length [10, 20, 30, 40 :: byte])) 4 @ [10, 20, 30, 40]) =
           Inr demoServerCipher"
    using demo_serverEncrypt by (simp only: demoFrame_framed)
  have c: "checkAndRecord demoState 7301444403692000000 =
             Inr (demoState\<lparr>msgIds := [7301444403692000000]\<rparr>)"
    by (simp add: checkAndRecord_def demoState_fields)
  from decryptMessageData_serverEncrypt [OF demoState_fields(6) demoAuthKey_fields
      length_sha256_demoExt demoExt_ige_inverse _ _ _ _ e]
  have "decryptMessageData demoExt demoState demoServerCipher =
          (case checkAndRecord demoState 7301444403692000000 of
             Inl e \<Rightarrow> (Inl e, demoState)
           | Inr s' \<Rightarrow>
               (case tgReadObject demoExt ([10, 20, 30, 40] @ generateRandomBytes demoRnd
                    (nat ((- (int (16 + length (toSignedLittleBuffer 7301444403692000000 8 @
                       toSignedLittleBuffer 1 4 @
                       toSignedLittleBuffer (int (length [10, 20, 30, 40 :: byte])) 4 @
                       [10, 20, 30, 40])) + 12)) mod 16 + 12))) of
                  None \<Rightarrow> (Inl DecodeError, s')
                | Some ob \<Rightarrow>
                    (Inr \<lparr>msgId = 7301444403692000000, seqNo = 1, obj = ob\<rparr>, s')))"
    by simp
  then show ?thesis
    by (simp add: c demo_tgReadObject)
qed

text \<open>
  C9, as stated, fails: in \<open>demoState\<close>, with a cipher whose decryption inverts its
  encryption, \<open>encryptMessageData\<close> turns the framed message \<open>demoFrame\<close> into
  \<open>demoCipher\<close>, and \<open>decryptMessageData\<close> rejects \<open>demoCipher\<close> with the message-key
  mismatch. Encryption takes the message key from \<open>masterKey[88:120]\<close> and derives the
  keys with \<open>client = true\<close>; decryption recomputes it from \<open>masterKey[96:128]\<close> and derives
  them with \<open>client = false\<close>.
\<close>

theorem roundtrip_own_frame_fails:
  "encryptMessageData demoExt demoRnd demoState demoFrame = Inr demoCipher \<and>
   decryptIge demoExt (fst (calcKey demoExt demoKey demoMsgKey True))
     (snd (calcKey demoExt demoKey demoMsgKey True))
     (encryptIge demoExt (fst (calcKey demoExt demoKey demoMsgKey True))
        (snd (calcKey demoExt demoKey demoMsgKey True)) demoPlain) = demoPlain \<and>
   decryptMessageData demoExt demoState demoCipher = (Inl MsgKeyMismatch, demoState)"
proof -
  have "decryptMessageData demoExt demoState demoCipher = (Inl MsgKeyMismatch, demoState)"
    by (simp add: decryptMessageData_def demoState_fields demo_decryptBody)
  with demo_encrypt demoExt_ige_inverse show ?thesis by blast
qed

text \<open>
  C9, amended: \<open>decryptMessageData\<close> inverts the frame of the server direction, not the
  output of the state's own \<open>encryptMessageData\<close>. Take a state with key, key identifier,
  salt and session identifier, a 32-byte digest, a cipher whose decryption inverts its
  encryption, and an object decoder that reads the object \<open>ob\<close> from the body whatever
  bytes follow it. Let a message be framed as \<open>writeDataAsMessage\<close> frames it (identifier
  in 64 bits, sequence number in 32 bits, length, body) and encrypted as the server
  does (message key from \<open>masterKey[96:128]\<close>, keys from \<open>_calcKey\<close> with
  \<open>client = false\<close>), with any random padding. If the identifier is not in the replay
  window or the security checks are off, decrypting that frame succeeds, records the
  identifier, and returns the framed identifier and sequence number with the object of
  the body: the padding is discarded, the result being the same for every padding.
\<close>

theorem decryptMessageData_inverts_server_frame:
  fixes payload :: bytes and rnd :: "nat \<Rightarrow> byte" and mid sq :: int
  defines "frame \<equiv> toSignedLittleBuffer mid 8 @ toSignedLittleBuffer sq 4 @
                    toSignedLittleBuffer (int (length payload)) 4 @ payload"
  assumes "authKey s = Some ak" and "getKey ak = Some k" and "keyId ak = Some kid"
    and "\<forall>b. length (sha256 ext b) = 32"
    and "\<forall>key iv b. decryptIge ext key iv (encryptIge ext key iv b) = b"
    and "\<forall>rest. tgReadObject ext (payload @ rest) = Some ob"
    and "- (2 ^ 63) \<le> mid" and "mid < 2 ^ 63" and "- (2 ^ 31) \<le> sq" and "sq < 2 ^ 31"
    and "mid \<notin> set (msgIds s) \<or> \<not> securityChecks s"
  shows "\<exists>c. serverEncryptMessageData ext rnd s frame = Inr c \<and>
           decryptMessageData ext s c =
             (Inr \<lparr>msgId = mid, seqNo = sq, obj = ob\<rparr>,
              s\<lparr>msgIds :=
                  (if length (msgIds s) > 500 then tl (msgIds s) else msgIds s) @ [mid]\<rparr>)"
proof -
  obtain c where c: "serverEncryptMessageData ext rnd s
      (toSignedLittleBuffer mid 8 @ toSignedLittleBuffer sq 4 @
       toSignedLittleBuffer (int (length payload)) 4 @ payload) = Inr c"
    using serverEncryptMessageData_unfold [OF assms(2-4), of ext rnd]
    by (simp add: Let_def)
  from decryptMessageData_serverEncrypt [OF assms(2-6) assms(8-11) c]
    checkAndRecord_ok [OF assms(12)] assms(7)
  have "decryptMessageData ext s c =
          (Inr \<lparr>msgId = mid, seqNo = sq, obj = ob\<rparr>,
           s\<lparr>msgIds :=
               (if length (msgIds s) > 500 then tl (msgIds s) else msgIds s) @ [mid]\<rparr>)"
    by simp
  with c show ?thesis by (auto simp: frame_def)
qed

theorem decryptMessageData_inverts_server_frame_witness:
  "authKey demoState = Some demoAuthKey \<and>
   getKey demoAuthKey = Some demoKey \<and>
   keyId demoAuthKey = Some 0x0102030405060708 \<and>
   (\<forall>b. length (sha256 demoExt b) = 32) \<and>
   (\<forall>key iv b. decryptIge demoExt key iv (encryptIge demoExt key iv b) = b) \<and>
   (\<forall>rest. tgReadObject demoExt ([10, 20, 30, 40] @ rest) = Some [10, 20, 30, 40]) \<and>
   7301444403692000000 \<notin> set (msgIds demoState) \<and>
   serverEncryptMessageData demoExt demoRnd demoState
     (toSignedLittleBuffer 7301444403692000000 8 @ toSignedLittleBuffer 1 4 @
      toSignedLittleBuffer (int (length [10, 20, 30, 40 :: byte])) 4 @ [10, 20, 30, 40]) =
     Inr demoServerCipher \<and>
   decryptMessageData demoExt demoState demoServerCipher =
     (Inr \<lparr>msgId = 7301444403692000000, seqNo = 1, obj = [10, 20, 30, 40]\<rparr>,
      demoState\<lparr>msgIds := [7301444403692000000]\<rparr>)"
proof -
  note h = demoState_fields(6) demoAuthKey_fields length_sha256_demoExt demoExt_ige_inverse
    demo_tgReadObject_payload
  have e: "serverEncryptMessageData demoExt demoRnd demoState
             (toSignedLittleBuffer 7301444403692000000 8 @ toSignedLittleBuffer 1 4 @
              toSignedLittleBuffer (int (length [10, 20, 30, 40 :: byte])) 4 @ [10, 20, 30, 40]) =
           Inr demoServerCipher"
    using demo_serverEncrypt by (simp only: demoFrame_framed)
  have f: "7301444403692000000 \<notin> set (msgIds demoState)"
    by (simp add: demoState_fields)
  then have f': "7301444403692000000 \<notin> set (msgIds demoState) \<or> \<not> securityChecks demoState"
    by simp
  from decryptMessageData_inverts_server_frame [OF h _ _ _ _ f', of 1 demoRnd]
  obtain c where c: "serverEncryptMessageData demoExt demoRnd demoState
             (toSignedLittleBuffer 7301444403692000000 8 @ toSignedLittleBuffer 1 4 @
              toSignedLittleBuffer (int (length [10, 20, 30, 40 :: byte])) 4 @ [10, 20, 30, 40]) =
           Inr c"
    and d: "decryptMessageData demoExt demoState c =
     (Inr \<lparr>msgId = 7301444403692000000, seqNo = 1, obj = [10, 20, 30, 40]\<rparr>,
      demoState\<lparr>msgIds :=
        (if length (msgIds demoState) > 500 then tl (msgIds demoState) else msgIds demoState) @
        [7301444403692000000]\<rparr>)"
    by auto
  from c e have "c = demoServerCipher" by simp
  with d have "decryptMessageData demoExt demoState demoServerCipher =
     (Inr \<lparr>msgId = 7301444403692000000, seqNo = 1, obj = [10, 20, 30, 40]\<rparr>,
      demoState\<lparr>msgIds := [7301444403692000000]\<rparr>)"
    by (simp add: demoState_fields)
  with h e f show ?thesis by blast
qed

subsection \<open>Duplicate identifiers\<close>

lemma readMessage_at_check:
  assumes "readLong b = Inr (x, r1)" and "readLong r1 = Inr (y, r2)"
    and "readLong r2 = Inr (rid, r3)"
  shows "readMessage ext s b =
     (case checkAndRecord s rid of
        Inl e \<Rightarrow> (Inl e, s)
      | Inr s' \<Rightarrow>
     (case readInt r3 of
        Inl e \<Rightarrow> (Inl e, s')
      | Inr (remoteSequence, r4) \<Rightarrow>
     (case readInt r4 of
        Inl e \<Rightarrow> (Inl e, s')
      | Inr (msgLen, r5) \<Rightarrow>
     (case tgReadObject ext r5 of
        None \<Rightarrow> (Inl DecodeError, s')
      | Some ob \<Rightarrow>
          (Inr \<lparr>msgId = rid, seqNo = remoteSequence, obj = ob\<rparr>, s')))))"
  by (simp add: readMessage_def assms)

lemma readMessage_Inr:
  assumes "readMessage ext s b = (Inr m, s')"
  shows "\<exists>x r1 y r2 r3 r4 ln r5.
           readLong b = Inr (x, r1) \<and> readLong r1 = Inr (y, r2) \<and>
           readLong r2 = Inr (msgId m, r3) \<and> checkAndRecord s (msgId m) = Inr s' \<and>
           readInt r3 = Inr (seqNo m, r4) \<and> readInt r4 = Inr (ln, r5) \<and>
           tgReadObject ext r5 = Some (obj m)"
  using assms
  by (auto simp: readMessage_def split: sum.splits prod.splits option.splits)

lemma readMessage_not_duplicate:
  assumes "readLong b = Inr (x, r1)" and "readLong r1 = Inr (y, r2)"
    and "readLong r2 = Inr (rid, r3)" and "checkAndRecord s rid = Inr s1"
  shows "fst (readMessage ext s b) \<noteq> Inl DuplicateMsgIds" and
    "msgIds (snd (readMessage ext s b)) = msgIds s1"
  using assms
  by (auto simp: readMessage_at_check [OF assms(1-3)] readInt_def
      split: sum.splits prod.splits option.splits if_splits)

lemma decryptMessageData_twice:
  assumes "decryptMessageData ext s body = (Inr m, s')"
  shows "decryptMessageData ext s' body =
           (if securityChecks s then (Inl DuplicateMsgIds, s')
            else (Inr m, s'\<lparr>msgIds :=
                   (if length (msgIds s') > 500 then tl (msgIds s') else msgIds s') @
                   [msgId m]\<rparr>))"
proof -
  from assms obtain b where b: "decryptBody ext (authKey s) body = Inr b"
    and r: "readMessage ext s b = (Inr m, s')"
    by (auto simp: decryptMessageData_def split: sum.splits)
  from readMessage_Inr [OF r] obtain x r1 y r2 r3 r4 ln r5 where
    p: "readLong b = Inr (x, r1)" "readLong r1 = Inr (y, r2)" "readLong r2 = Inr (msgId m, r3)"
    and c: "checkAndRecord s (msgId m) = Inr s'"
    and q: "readInt r3 = Inr (seqNo m, r4)" "readInt r4 = Inr (ln, r5)"
      "tgReadObject ext r5 = Some (obj m)"
    by blast
  from checkAndRecord_Inr [OF c] obtain ms where ms: "s' = s\<lparr>msgIds := ms @ [msgId m]\<rparr>"
    by blast
  have s': "authKey s' = authKey s" "securityChecks s' = securityChecks s"
    "msgId m \<in> set (msgIds s')"
    unfolding ms by simp_all
  have d: "decryptMessageData ext s' body = readMessage ext s' b"
    using b s'(1) by (simp add: decryptMessageData_def)
  show ?thesis
  proof (cases "securityChecks s")
    case True
    with s' have "checkAndRecord s' (msgId m) = Inl DuplicateMsgIds"
      by (intro checkAndRecord_dup) simp_all
    with True show ?thesis
      by (simp add: d readMessage_at_check [OF p])
  next
    case False
    with s' have "checkAndRecord s' (msgId m) =
        Inr (s'\<lparr>msgIds := (if length (msgIds s') > 500 then tl (msgIds s') else msgIds s') @
                [msgId m]\<rparr>)"
      by (intro checkAndRecord_ok) simp
    with False show ?thesis
      by (simp add: d readMessage_at_check [OF p] q)
  qed
qed

text \<open>
  C8: let \<open>decryptMessageData\<close> get as far as reading the remote identifier. When that
  identifier is already in \<open>msgIds\<close>, the call fails with the duplicate error exactly when
  the security checks are on, and then returns the state as it was; with the checks off
  it records the identifier once more, and when the sequence number, the length and the
  object that follow are read it succeeds and returns the message. A buffer that
  decrypted successfully fails the second time exactly when the checks are on. So for a
  valid buffer, one that passes the checks of lines 170-193 and whose fields and object
  are read, with an identifier that is new or with the checks off: the first decryption
  succeeds, and the second fails with the duplicate error, the state left as it was,
  when the checks are on, and succeeds with the same message, the identifier recorded
  a second time, when they are off.
\<close>

theorem duplicate_msgId_iff_securityChecks:
  "(decryptBody ext (authKey s) body = Inr b \<and> readLong b = Inr (x, r1) \<and>
    readLong r1 = Inr (y, r2) \<and> readLong r2 = Inr (rid, r3) \<and> rid \<in> set (msgIds s) \<longrightarrow>
      (fst (decryptMessageData ext s body) = Inl DuplicateMsgIds) = securityChecks s \<and>
      (securityChecks s \<longrightarrow> decryptMessageData ext s body = (Inl DuplicateMsgIds, s)) \<and>
      (\<not> securityChecks s \<longrightarrow>
         msgIds (snd (decryptMessageData ext s body)) =
           (if length (msgIds s) > 500 then tl (msgIds s) else msgIds s) @ [rid]) \<and>
      (\<not> securityChecks s \<and> readInt r3 = Inr (sq, r4) \<and> readInt r4 = Inr (ln, r5) \<and>
       tgReadObject ext r5 = Some ob \<longrightarrow>
         decryptMessageData ext s body =
           (Inr \<lparr>msgId = rid, seqNo = sq, obj = ob\<rparr>,
            s\<lparr>msgIds :=
                (if length (msgIds s) > 500 then tl (msgIds s) else msgIds s) @ [rid]\<rparr>))) \<and>
   (decryptMessageData ext s body = (Inr m, s') \<longrightarrow>
      decryptMessageData ext s' body =
        (if securityChecks s then (Inl DuplicateMsgIds, s')
         else (Inr m, s'\<lparr>msgIds :=
                (if length (msgIds s') > 500 then tl (msgIds s') else msgIds s') @
                [msgId m]\<rparr>))) \<and>
   (decryptBody ext (authKey s) body = Inr b \<and> readLong b = Inr (x, r1) \<and>
    readLong r1 = Inr (y, r2) \<and> readLong r2 = Inr (rid, r3) \<and>
    readInt r3 = Inr (sq, r4) \<and> readInt r4 = Inr (ln, r5) \<and> tgReadObject ext r5 = Some ob \<and>
    (rid \<notin> set (msgIds s) \<or> \<not> securityChecks s) \<longrightarrow>
      decryptMessageData ext s body =
        (Inr \<lparr>msgId = rid, seqNo = sq, obj = ob\<rparr>,
         s\<lparr>msgIds :=
             (if length (msgIds s) > 500 then tl (msgIds s) else msgIds s) @ [rid]\<rparr>) \<and>
      decryptMessageData ext
        (s\<lparr>msgIds :=
            (if length (msgIds s) > 500 then tl (msgIds s) else msgIds s) @ [rid]\<rparr>) body =
        (if securityChecks s
         then (Inl DuplicateMsgIds,
               s\<lparr>msgIds :=
                   (if length (msgIds s) > 500 then tl (msgIds s) else msgIds s) @ [rid]\<rparr>)
         else (Inr \<lparr>msgId = rid, seqNo = sq, obj = ob\<rparr>,
               s\<lparr>msgIds :=
                   (if length ((if length (msgIds s) > 500 then tl (msgIds s) else msgIds s) @
                               [rid]) > 500
                    then tl ((if length (msgIds s) > 500 then tl (msgIds s) else msgIds s) @
                             [rid])
                    else (if length (msgIds s) > 500 then tl (msgIds s) else msgIds s) @
                         [rid]) @ [rid]\<rparr>)))"
proof -
  let ?w = "(if length (msgIds s) > 500 then tl (msgIds s) else msgIds s) @ [rid]"
  let ?s1 = "s\<lparr>msgIds := ?w\<rparr>"
  let ?m = "\<lparr>msgId = rid, seqNo = sq, obj = ob\<rparr>"
  have ok: "decryptMessageData ext s body = (Inr ?m, ?s1)"
    if d: "decryptBody ext (authKey s) body = Inr b"
      and p: "readLong b = Inr (x, r1)" "readLong r1 = Inr (y, r2)" "readLong r2 = Inr (rid, r3)"
      and q: "readInt r3 = Inr (sq, r4)" "readInt r4 = Inr (ln, r5)"
        "tgReadObject ext r5 = Some ob"
      and f: "rid \<notin> set (msgIds s) \<or> \<not> securityChecks s"
    using checkAndRecord_ok [OF f]
    by (simp add: decryptMessageData_def d readMessage_at_check [OF p] q)
  have first: "(fst (decryptMessageData ext s body) = Inl DuplicateMsgIds) = securityChecks s \<and>
      (securityChecks s \<longrightarrow> decryptMessageData ext s body = (Inl DuplicateMsgIds, s)) \<and>
      (\<not> securityChecks s \<longrightarrow> msgIds (snd (decryptMessageData ext s body)) = ?w) \<and>
      (\<not> securityChecks s \<and> readInt r3 = Inr (sq, r4) \<and> readInt r4 = Inr (ln, r5) \<and>
       tgReadObject ext r5 = Some ob \<longrightarrow>
         decryptMessageData ext s body = (Inr ?m, ?s1))"
    if a: "decryptBody ext (authKey s) body = Inr b \<and> readLong b = Inr (x, r1) \<and>
      readLong r1 = Inr (y, r2) \<and> readLong r2 = Inr (rid, r3) \<and> rid \<in> set (msgIds s)"
  proof -
    from a have b: "decryptBody ext (authKey s) body = Inr b" by simp
    then have d: "decryptMessageData ext s body = readMessage ext s b"
      by (simp add: decryptMessageData_def)
    from a have p: "readLong b = Inr (x, r1)" "readLong r1 = Inr (y, r2)"
      "readLong r2 = Inr (rid, r3)" and m: "rid \<in> set (msgIds s)"
      by simp_all
    have on: "decryptMessageData ext s body = (Inl DuplicateMsgIds, s)" if "securityChecks s"
      using checkAndRecord_dup [OF m that] by (simp add: d readMessage_at_check [OF p])
    have off: "fst (decryptMessageData ext s body) \<noteq> Inl DuplicateMsgIds"
      "msgIds (snd (decryptMessageData ext s body)) = ?w"
      if "\<not> securityChecks s"
    proof -
      from that have c: "checkAndRecord s rid = Inr ?s1"
        by (intro checkAndRecord_ok) simp
      from readMessage_not_duplicate [OF p c, of ext]
      show "fst (decryptMessageData ext s body) \<noteq> Inl DuplicateMsgIds"
        "msgIds (snd (decryptMessageData ext s body)) = ?w"
        by (simp_all add: d)
    qed
    have iff: "(fst (decryptMessageData ext s body) = Inl DuplicateMsgIds) = securityChecks s"
      using on off(1) by (cases "securityChecks s") simp_all
    have dec: "decryptMessageData ext s body = (Inr ?m, ?s1)"
      if "\<not> securityChecks s \<and> readInt r3 = Inr (sq, r4) \<and> readInt r4 = Inr (ln, r5) \<and>
          tgReadObject ext r5 = Some ob"
      using that by (intro ok [OF b p]) simp_all
    from iff on off(2) dec show ?thesis by blast
  qed
  have second: "decryptMessageData ext s' body =
        (if securityChecks s then (Inl DuplicateMsgIds, s')
         else (Inr m, s'\<lparr>msgIds :=
                (if length (msgIds s') > 500 then tl (msgIds s') else msgIds s') @
                [msgId m]\<rparr>))"
    if "decryptMessageData ext s body = (Inr m, s')"
    using that by (rule decryptMessageData_twice)
  have twice: "decryptMessageData ext s body = (Inr ?m, ?s1) \<and>
      decryptMessageData ext ?s1 body =
        (if securityChecks s then (Inl DuplicateMsgIds, ?s1)
         else (Inr ?m, s\<lparr>msgIds := (if length ?w > 500 then tl ?w else ?w) @ [rid]\<rparr>))"
    if a: "decryptBody ext (authKey s) body = Inr b \<and> readLong b = Inr (x, r1) \<and>
      readLong r1 = Inr (y, r2) \<and> readLong r2 = Inr (rid, r3) \<and>
      readInt r3 = Inr (sq, r4) \<and> readInt r4 = Inr (ln, r5) \<and> tgReadObject ext r5 = Some ob \<and>
      (rid \<notin> set (msgIds s) \<or> \<not> securityChecks s)"
  proof -
    from a have o: "decryptMessageData ext s body = (Inr ?m, ?s1)"
      by (intro ok) simp_all
    from decryptMessageData_twice [OF o] o show ?thesis by simp
  qed
  from first second twice show ?thesis by blast
qed

lemma demo_decryptBody_server:
  "decryptBody demoExt (Some demoAuthKey) demoServerCipher = Inr demoPlain"
proof -
  have "toSignedLittleBuffer (salt demoState) 8 @ toSignedLittleBuffer (id' demoState) 8 @
          demoFrame @ generateRandomBytes demoRnd 12 = demoPlain"
    using demo_plain by simp
  with decryptBody_serverEncrypt [OF demoState_fields(6) demoAuthKey_fields
      length_sha256_demoExt demoExt_ige_inverse demo_serverEncrypt]
  show ?thesis
    by (simp add: demoState_fields demoFrame_def)
qed

lemma demo_readLongs:
  "readLong demoPlain = Inr (0, drop 8 demoPlain)"
  "readLong (drop 8 demoPlain) = Inr (99, drop 16 demoPlain)"
  "readLong (drop 16 demoPlain) = Inr (7301444403692000000, drop 24 demoPlain)"
  by (simp_all add: readLong_def readBigIntFromBuffer_def demoPlain_def)

lemma demo_readInts:
  "readInt (drop 24 demoPlain) = Inr (1, drop 28 demoPlain)"
  "readInt (drop 28 demoPlain) = Inr (4, drop 32 demoPlain)"
  "tgReadObject demoExt (drop 32 demoPlain) = Some [10, 20, 30, 40]"
  by (simp_all add: readInt_def readBigIntFromBuffer_def demoPlain_def demo_tgReadObject)

theorem duplicate_msgId_iff_securityChecks_witness:
  "decryptBody demoExt (authKey demoState) demoServerCipher = Inr demoPlain \<and>
   readLong demoPlain = Inr (0, drop 8 demoPlain) \<and>
   readLong (drop 8 demoPlain) = Inr (99, drop 16 demoPlain) \<and>
   readLong (drop 16 demoPlain) = Inr (7301444403692000000, drop 24 demoPlain) \<and>
   readInt (drop 24 demoPlain) = Inr (1, drop 28 demoPlain) \<and>
   readInt (drop 28 demoPlain) = Inr (4, drop 32 demoPlain) \<and>
   tgReadObject demoExt (drop 32 demoPlain) = Some [10, 20, 30, 40] \<and>
   7301444403692000000 \<notin> set (msgIds demoState) \<and>
   securityChecks demoState \<and>
   decryptMessageData demoExt demoState demoServerCipher =
     (Inr \<lparr>msgId = 7301444403692000000, seqNo = 1, obj = [10, 20, 30, 40]\<rparr>,
      demoState\<lparr>msgIds := [7301444403692000000]\<rparr>) \<and>
   7301444403692000000 \<in> set (msgIds (demoState\<lparr>msgIds := [7301444403692000000]\<rparr>)) \<and>
   decryptMessageData demoExt (demoState\<lparr>msgIds := [7301444403692000000]\<rparr>)
     demoServerCipher =
     (Inl DuplicateMsgIds, demoState\<lparr>msgIds := [7301444403692000000]\<rparr>) \<and>
   \<not> securityChecks (demoState\<lparr>msgIds := [7301444403692000000],
                                 securityChecks := False\<rparr>) \<and>
   decryptMessageData demoExt
     (demoState\<lparr>msgIds := [7301444403692000000], securityChecks := False\<rparr>)
     demoServerCipher =
     (Inr \<lparr>msgId = 7301444403692000000, seqNo = 1, obj = [10, 20, 30, 40]\<rparr>,
      demoState\<lparr>msgIds := [7301444403692000000, 7301444403692000000],
                 securityChecks := False\<rparr>)"
proof -
  let ?mid = "7301444403692000000 :: int"
  let ?s1 = "demoState\<lparr>msgIds := [?mid]\<rparr>"
  let ?off = "demoState\<lparr>msgIds := [?mid], securityChecks := False\<rparr>"
  let ?m = "\<lparr>msgId = ?mid, seqNo = 1, obj = [10, 20, 30, 40 :: byte]\<rparr>"
  have b: "decryptBody demoExt (authKey demoState) demoServerCipher = Inr demoPlain"
    by (simp add: demoState_fields demo_decryptBody_server)
  have f: "?mid \<notin> set (msgIds demoState)" by (simp add: demoState_fields)
  have c: "securityChecks demoState" by (rule demoState_fields)
  have i: "?mid \<in> set (msgIds ?s1)" by simp
  note fresh = duplicate_msgId_iff_securityChecks
      [where ext = demoExt and s = demoState and body = demoServerCipher and b = demoPlain
        and x = 0 and ?r1.0 = "drop 8 demoPlain" and y = 99 and ?r2.0 = "drop 16 demoPlain"
        and rid = ?mid and ?r3.0 = "drop 24 demoPlain" and sq = 1
        and ?r4.0 = "drop 28 demoPlain" and ln = 4 and ?r5.0 = "drop 32 demoPlain"
        and ob = "[10, 20, 30, 40]"]
  from fresh b demo_readLongs demo_readInts f
  have two: "decryptMessageData demoExt demoState demoServerCipher =
        (Inr ?m, demoState\<lparr>msgIds :=
           (if length (msgIds demoState) > 500 then tl (msgIds demoState)
            else msgIds demoState) @ [?mid]\<rparr>) \<and>
      decryptMessageData demoExt
        (demoState\<lparr>msgIds :=
           (if length (msgIds demoState) > 500 then tl (msgIds demoState)
            else msgIds demoState) @ [?mid]\<rparr>) demoServerCipher =
        (if securityChecks demoState
         then (Inl DuplicateMsgIds,
               demoState\<lparr>msgIds :=
                 (if length (msgIds demoState) > 500 then tl (msgIds demoState)
                  else msgIds demoState) @ [?mid]\<rparr>)
         else (Inr ?m,
               demoState\<lparr>msgIds :=
                   (if length ((if length (msgIds demoState) > 500 then tl (msgIds demoState)
                                else msgIds demoState) @ [?mid]) > 500
                    then tl ((if length (msgIds demoState) > 500 then tl (msgIds demoState)
                              else msgIds demoState) @ [?mid])
                    else (if length (msgIds demoState) > 500 then tl (msgIds demoState)
                          else msgIds demoState) @ [?mid]) @ [?mid]\<rparr>))"
    by blast
  then have d1: "decryptMessageData demoExt demoState demoServerCipher = (Inr ?m, ?s1)"
    and d2: "decryptMessageData demoExt ?s1 demoServerCipher = (Inl DuplicateMsgIds, ?s1)"
    by (simp_all add: demoState_fields)
  have bo: "decryptBody demoExt (authKey ?off) demoServerCipher = Inr demoPlain"
    by (simp add: demoState_fields demo_decryptBody_server)
  have io: "?mid \<in> set (msgIds ?off)" by simp
  have no: "\<not> securityChecks ?off" by simp
  note dup = duplicate_msgId_iff_securityChecks
      [where ext = demoExt and s = ?off and body = demoServerCipher and b = demoPlain
        and x = 0 and ?r1.0 = "drop 8 demoPlain" and y = 99 and ?r2.0 = "drop 16 demoPlain"
        and rid = ?mid and ?r3.0 = "drop 24 demoPlain" and sq = 1
        and ?r4.0 = "drop 28 demoPlain" and ln = 4 and ?r5.0 = "drop 32 demoPlain"
        and ob = "[10, 20, 30, 40]"]
  from dup bo demo_readLongs demo_readInts io no
  have "decryptMessageData demoExt ?off demoServerCipher =
          (Inr ?m, ?off\<lparr>msgIds :=
             (if length (msgIds ?off) > 500 then tl (msgIds ?off) else msgIds ?off) @
             [?mid]\<rparr>)"
    by blast
  then have d3: "decryptMessageData demoExt ?off demoServerCipher =
      (Inr ?m, demoState\<lparr>msgIds := [?mid, ?mid], securityChecks := False\<rparr>)"
    by simp
  from b demo_readLongs demo_readInts f c d1 i d2 no d3 show ?thesis by blast
qed

subsection \<open>The size of the replay window\<close>

text \<open>
  Every recording of \<open>checkAndRecord\<close> is the effect of a call of \<open>decryptMessageData\<close> on
  the frame a server sends for that identifier, so the states it leads to are reachable.
\<close>

lemma checkAndRecord_reachable:
  assumes "reachable ext clock s"
    and "authKey s = Some ak" and "getKey ak = Some k" and "keyId ak = Some kid"
    and "\<forall>b. length (sha256 ext b) = 32"
    and "\<forall>key iv b. decryptIge ext key iv (encryptIge ext key iv b) = b"
    and "- (2 ^ 63) \<le> r" and "r < 2 ^ 63"
    and "checkAndRecord s r = Inr s'"
  shows "reachable ext clock s'"
proof -
  let ?frame = "toSignedLittleBuffer r 8 @ toSignedLittleBuffer 0 4 @
                toSignedLittleBuffer (int (length ([] :: bytes))) 4 @ []"
  obtain c where c: "serverEncryptMessageData ext (\<lambda>_. 0) s ?frame = Inr c"
    using serverEncryptMessageData_unfold [OF assms(2-4), of ext "\<lambda>_. 0" ?frame]
    by (simp add: Let_def)
  from decryptMessageData_serverEncrypt [OF assms(2-6) assms(7,8) _ _ c] assms(9)
  have "snd (decryptMessageData ext s c) = s'"
    by (simp split: option.splits)
  with r_decryptMessageData [OF assms(1), of c] show ?thesis by simp
qed

lemma checkAndRecord_authKey: "checkAndRecord s r = Inr s' \<Longrightarrow> authKey s' = authKey s"
  by (auto simp: checkAndRecord_def split: if_splits)

lemma checkAndRecordAll_reachable:
  assumes "reachable ext clock s"
    and "authKey s = Some ak" and "getKey ak = Some k" and "keyId ak = Some kid"
    and "\<forall>b. length (sha256 ext b) = 32"
    and "\<forall>key iv b. decryptIge ext key iv (encryptIge ext key iv b) = b"
    and "\<forall>r\<in>set rs. - (2 ^ 63) \<le> r \<and> r < 2 ^ 63"
    and "checkAndRecordAll s rs = Inr s'"
  shows "reachable ext clock s'"
  using assms(1,2,7,8)
proof (induction rs arbitrary: s)
  case Nil
  then show ?case by simp
next
  case (Cons r rs)
  from Cons.prems(4) obtain s1 where s1: "checkAndRecord s r = Inr s1"
    and rest: "checkAndRecordAll s1 rs = Inr s'"
    by (auto split: sum.splits)
  from Cons.prems(3) have r: "- (2 ^ 63) \<le> r" "r < 2 ^ 63" by simp_all
  have "reachable ext clock s1"
    by (rule checkAndRecord_reachable [OF Cons.prems(1,2) assms(3-6) r s1])
  moreover have "authKey s1 = Some ak"
    using checkAndRecord_authKey [OF s1] Cons.prems(2) by simp
  moreover from Cons.prems(3) have "\<forall>r\<in>set rs. - (2 ^ 63) \<le> r \<and> r < 2 ^ 63" by simp
  ultimately show ?case using rest by (rule Cons.IH)
qed

lemma demo_record_501:
  "checkAndRecordAll demoState [1..501] = Inr (demoState\<lparr>msgIds := [1..501]\<rparr>)"
  using checkAndRecordAll_window [of demoState "[1..501]"]
  by (simp add: demoState_fields)

text \<open>
  C2 at the input that shows the defect: on the fresh state \<open>demoState\<close>, security checks
  on, the 501 distinct remote identifiers 1 to 501 are recorded one after the other.
  The state that results is reachable through \<open>decryptMessageData\<close>, its window holds
  all 501 identifiers, one more than 500, and the first identifier recorded is still
  rejected as a duplicate. Line 205 compares the length with 500 before line 208
  appends, so the window is cut back to 500 only after it has reached 501.
\<close>

theorem msgIds_holds_501_entries:
  "checkAndRecordAll demoState [1..501] = Inr (demoState\<lparr>msgIds := [1..501]\<rparr>) \<and>
   reachable demoExt exactClock (demoState\<lparr>msgIds := [1..501]\<rparr>) \<and>
   length (msgIds (demoState\<lparr>msgIds := [1..501]\<rparr>)) = 501 \<and>
   securityChecks (demoState\<lparr>msgIds := [1..501]\<rparr>) \<and>
   checkAndRecord (demoState\<lparr>msgIds := [1..501]\<rparr>) 1 = Inl DuplicateMsgIds"
proof -
  have b: "\<forall>r\<in>set [1..501]. - (2 ^ 63) \<le> r \<and> r < 2 ^ 63" by auto
  have r: "reachable demoExt exactClock (demoState\<lparr>msgIds := [1..501]\<rparr>)"
    by (rule checkAndRecordAll_reachable [OF reachable_demoState demoState_fields(6)
          demoAuthKey_fields length_sha256_demoExt demoExt_ige_inverse b demo_record_501])
  have d: "checkAndRecord (demoState\<lparr>msgIds := [1..501]\<rparr>) 1 = Inl DuplicateMsgIds"
    by (rule checkAndRecord_dup) (simp_all add: demoState_fields)
  from demo_record_501 r d show ?thesis by (simp add: demoState_fields)
qed

end
